theory Spec2Isabelle
  imports Main "HOL-Library.AList"
begin

section \<open>Post-processing hooks of Pooch.fetch (pooch/processors.py)\<close>

text \<open>
  The module holds three processors: the archive extractors \<open>Unzip\<close> and \<open>Untar\<close>, built on
  the base class \<open>ExtractorProcessor\<close>, and \<open>Decompress\<close>. Each is called with the path of a
  fetched file, the action the fetch took, and the calling \<open>Pooch\<close> (never read).

  Everything the processors do is an effect on the file system, on the warning channel and on
  open handles, so the model threads a \<open>world\<close> through every call and returns either an
  exception or a value together with the world reached: an exception keeps the effects that
  happened before it.
\<close>

subsection \<open>Strings and paths (posixpath)\<close>

type_synonym path = string

text \<open>The apostrophe, which the messages of the module put around file names.\<close>

definition sq :: string where
  "sq = [CHR 0x27]"

definition quoted :: "string \<Rightarrow> string" where
  "quoted s = sq @ s @ sq"

text \<open>\<open>str.join\<close>, and what \<open>str.format\<close> prints for a list of strings (its \<open>repr\<close>).\<close>

fun str_join :: "string \<Rightarrow> string list \<Rightarrow> string" where
  "str_join sep [] = []"
| "str_join sep [x] = x"
| "str_join sep (x # y # ys) = x @ sep @ str_join sep (y # ys)"

definition list_repr :: "string list \<Rightarrow> string" where
  "list_repr xs = ''['' @ str_join '', '' (map quoted xs) @ '']''"

text \<open>\<open>str.rfind\<close> for one character: the index of its last occurrence, or \<open>-1\<close>.\<close>

definition rfind :: "char \<Rightarrow> string \<Rightarrow> int" where
  "rfind c p =
     (if c \<in> set p then int (length p) - 1 - int (length (takeWhile (\<lambda>x. x \<noteq> c) (rev p)))
      else - 1)"

text \<open>
  \<open>os.path.splitext\<close> (genericpath.\_splitext with \<open>sep = '/'\<close>, no \<open>altsep\<close>,
  \<open>extsep = '.'\<close>): the extension starts at the last dot of the last component, unless only
  dots precede it there. The \<open>while\<close> loop that skips the leading dots is the search for a
  character other than a dot between the separator and the last dot.
\<close>

definition splitext :: "path \<Rightarrow> path \<times> string" where
  "splitext p =
     (let sepIndex = rfind CHR ''/'' p;
          dotIndex = rfind CHR ''.'' p
      in if dotIndex > sepIndex \<and>
            list_ex (\<lambda>ch. ch \<noteq> CHR ''.'')
              (take (nat (dotIndex - (sepIndex + 1))) (drop (nat (sepIndex + 1)) p))
         then (take (nat dotIndex) p, drop (nat dotIndex) p)
         else (p, []))"

text \<open>\<open>str.rstrip('/')\<close>.\<close>

definition rstrip_sep :: "path \<Rightarrow> path" where
  "rstrip_sep p = rev (dropWhile (\<lambda>x. x = CHR ''/'') (rev p))"

text \<open>
  \<open>os.path.split\<close>: the tail is what follows the last slash; the head is what precedes it,
  with its trailing slashes removed unless it consists of slashes only.
\<close>

definition path_split :: "path \<Rightarrow> path \<times> path" where
  "path_split p =
     (let i = nat (rfind CHR ''/'' p + 1);
          head = take i p;
          tail = drop i p
      in (if head \<noteq> [] \<and> list_ex (\<lambda>x. x \<noteq> CHR ''/'') head then rstrip_sep head else head,
          tail))"

definition dirname :: "path \<Rightarrow> path" where
  "dirname p = fst (path_split p)"

text \<open>\<open>os.path.join\<close> of two components.\<close>

definition path_join :: "path \<Rightarrow> path \<Rightarrow> path" where
  "path_join a b =
     (if b \<noteq> [] \<and> hd b = CHR ''/'' then b
      else if a = [] \<or> last a = CHR ''/'' then a @ b
      else a @ ''/'' @ b)"

subsection \<open>Exceptions\<close>

datatype error =
    NotImplementedError string
  | ValueError string
  | KeyError string
  | AttributeError string
  | FileNotFoundError path
  | FileExistsError path
  | IsADirectoryError path
  | NotADirectoryError path
  | BadArchive path
  | BadStream path

subsection \<open>Decompress: the choice of the compression module\<close>

text \<open>The Python modules \<open>lzma\<close>, \<open>gzip\<close> and \<open>bz2\<close>.\<close>

datatype pymodule = Lzma | Gzip | Bz2

text \<open>The class attribute \<open>Decompress.modules\<close>, a dict in insertion order.\<close>

definition modules :: "(string \<times> pymodule) list" where
  "modules = [(''lzma'', Lzma), (''xz'', Lzma), (''gzip'', Gzip), (''bzip2'', Bz2)]"

text \<open>The local dict \<open>valid_methods\<close> of \<open>_compression_module\<close>.\<close>

definition valid_methods :: "(string \<times> string) list" where
  "valid_methods = [(''.xz'', ''lzma''), (''.gz'', ''gzip''), (''.bz2'', ''bzip2'')]"

text \<open>The processor object; the attribute \<open>method\<close> is the field \<open>method'\<close>.\<close>

record decompress =
  method' :: string

text \<open>\<open>Decompress.__init__\<close>: stores the method, whatever it is.\<close>

definition Decompress :: "string \<Rightarrow> decompress" where
  "Decompress m = \<lparr>method' = m\<rparr>"

definition unrecognized_extension :: "string \<Rightarrow> string" where
  "unrecognized_extension ext =
     ''Unrecognized extension '' @ quoted ext @ ''. Must be one of '' @
     quoted (list_repr (map fst valid_methods)) @ ''.''"

definition invalid_method :: "string \<Rightarrow> string" where
  "invalid_method m =
     ''Invalid compression method '' @ quoted m @ ''. Must be one of '' @
     quoted (list_repr (map fst modules)) @ ''.''"

text \<open>
  \<open>Decompress._compression_module\<close>. It reads no state. The two \<open>raise\<close> statements are the
  two \<open>Inl\<close> results; \<open>valid_methods[ext]\<close> and \<open>self.modules[method]\<close> are only reached for
  keys that are present.
\<close>

definition compression_module :: "decompress \<Rightarrow> path \<Rightarrow> error + pymodule" where
  "compression_module self fname =
     (let m = method' self;
          resolved =
            (if m = ''auto'' then
               (let ext = snd (splitext fname) in
                case map_of valid_methods ext of
                  None \<Rightarrow> Inl (ValueError (unrecognized_extension ext))
                | Some m' \<Rightarrow> Inr m')
             else Inr m)
      in case resolved of
           Inl e \<Rightarrow> Inl e
         | Inr m' \<Rightarrow>
             (case map_of modules m' of
                None \<Rightarrow> Inl (ValueError (invalid_method m'))
              | Some md \<Rightarrow> Inr md))"

subsection \<open>The world: file system, warnings, handles\<close>

text \<open>
  What a file holds is kept structured instead of as raw bytes, so that the libraries that
  parse it (\<open>zipfile\<close>, \<open>tarfile\<close>, \<open>lzma\<close>, \<open>gzip\<close>, \<open>bz2\<close>) need no model of their formats:
  \<open>Packed md c\<close> is a valid stream of the module \<open>md\<close> that decompresses to \<open>c\<close>, and an
  archive is the list of its entries in archive order. Copying bytes verbatim is copying the
  \<open>content\<close>. Links and special files inside archives are not modelled.
\<close>

datatype content =
    Raw string
  | Packed pymodule content
  | ZipArchive "(string \<times> member) list"
  | TarArchive "(string \<times> member) list"
and member =
    Regular content
  | Directory

datatype node = File content | Dir

datatype handle =
    ArchiveHandle path
  | MemberStream path string
  | CodecStream path
  | FileHandle path

text \<open>
  The file system maps a path, taken as the string it is, to a node: paths are expected in
  normal form (no empty, \<open>.\<close> or \<open>..\<close> component, no symbolic link). It is an association
  list whose order stands for the enumeration order of the platform. \<open>warnings\<close> is what
  \<open>warnings.warn\<close> has emitted, oldest first; \<open>handles\<close> are the handles now open;
  \<open>unpack_log\<close> records each call of a variant's \<open>_extract_file\<close> with its two arguments.
\<close>

record world =
  fs :: "(path \<times> node) list"
  warnings :: "string list"
  handles :: "handle list"
  unpack_log :: "(path \<times> path) list"

type_synonym 'a io = "world \<Rightarrow> (error + 'a) \<times> world"

definition return :: "'a \<Rightarrow> 'a io" where
  "return x w = (Inr x, w)"

definition raise :: "error \<Rightarrow> 'a io" where
  "raise e w = (Inl e, w)"

text \<open>Sequencing: an exception of the first statement skips the rest.\<close>

definition bind :: "'a io \<Rightarrow> ('a \<Rightarrow> 'b io) \<Rightarrow> 'b io" where
  "bind m f w = (case m w of (Inl e, w') \<Rightarrow> (Inl e, w') | (Inr x, w') \<Rightarrow> f x w')"

text \<open>
  \<open>with acquire as x: body\<close>: when the acquisition succeeds its handle is open during the
  body and is closed on every exit from it.
\<close>

definition with_resource :: "(handle \<times> 'r) io \<Rightarrow> ('r \<Rightarrow> 'a io) \<Rightarrow> 'a io" where
  "with_resource acquire body w =
     (case acquire w of
        (Inl e, w1) \<Rightarrow> (Inl e, w1)
      | (Inr (h, x), w1) \<Rightarrow>
          (case body x (w1\<lparr>handles := h # handles w1\<rparr>) of
             (r, w2) \<Rightarrow> (r, w2\<lparr>handles := remove1 h (handles w2)\<rparr>)))"

text \<open>
  \<open>try: body finally: fin\<close>: \<open>fin\<close> runs on every exit of \<open>body\<close>; an exception of \<open>fin\<close>
  replaces the outcome of \<open>body\<close>.
\<close>

definition try_finally :: "'a io \<Rightarrow> unit io \<Rightarrow> 'a io" where
  "try_finally body fin w =
     (case body w of
        (r, w1) \<Rightarrow>
          (case fin w1 of
             (Inl e, w2) \<Rightarrow> (Inl e, w2)
           | (Inr u, w2) \<Rightarrow> (r, w2)))"

text \<open>\<open>for x in xs: body\<close>, left by the first exception.\<close>

fun for_each :: "('a \<Rightarrow> unit io) \<Rightarrow> 'a list \<Rightarrow> unit io" where
  "for_each f [] w = (Inr (), w)"
| "for_each f (x # xs) w =
     (case f x w of
        (Inl e, w') \<Rightarrow> (Inl e, w')
      | (Inr u, w') \<Rightarrow> for_each f xs w')"

definition warn :: "string \<Rightarrow> unit io" where
  "warn msg w = (Inr (), w\<lparr>warnings := warnings w @ [msg]\<rparr>)"

subsection \<open>File-system primitives\<close>

definition lookup :: "world \<Rightarrow> path \<Rightarrow> node option" where
  "lookup w p = map_of (fs w) p"

definition put :: "path \<Rightarrow> node \<Rightarrow> world \<Rightarrow> world" where
  "put p n w = w\<lparr>fs := AList.update p n (fs w)\<rparr>"

text \<open>\<open>os.path.exists\<close> and \<open>os.path.isdir\<close>; the root always exists.\<close>

definition path_exists :: "world \<Rightarrow> path \<Rightarrow> bool" where
  "path_exists w p = (p = ''/'' \<or> lookup w p \<noteq> None)"

definition isdir :: "world \<Rightarrow> path \<Rightarrow> bool" where
  "isdir w p = (p = ''/'' \<or> lookup w p = Some Dir)"

text \<open>
  The folder that would hold \<open>p\<close> is there: the working directory when \<open>p\<close> has no
  directory part, a directory otherwise.
\<close>

definition folder_exists :: "world \<Rightarrow> path \<Rightarrow> bool" where
  "folder_exists w p = (dirname p = [] \<or> isdir w (dirname p))"

text \<open>Why a path cannot be created in its folder, if it cannot.\<close>

definition folder_error :: "world \<Rightarrow> path \<Rightarrow> error option" where
  "folder_error w p =
     (if p = [] then Some (FileNotFoundError p)
      else if folder_exists w p then None
      else (case lookup w (dirname p) of
              Some (File c) \<Rightarrow> Some (NotADirectoryError p)
            | _ \<Rightarrow> Some (FileNotFoundError p)))"

text \<open>\<open>os.mkdir\<close>.\<close>

definition mkdir :: "path \<Rightarrow> unit io" where
  "mkdir p w =
     (if path_exists w p then (Inl (FileExistsError p), w)
      else (case folder_error w p of
              Some e \<Rightarrow> (Inl e, w)
            | None \<Rightarrow> (Inr (), put p Dir w)))"

text \<open>
  \<open>os.makedirs\<close> with \<open>exist_ok=False\<close>, after CPython: create the head first when it is
  missing, ignoring that it exists by then, and make the directory itself last.
\<close>

definition makedirs_parts :: "path \<Rightarrow> path \<times> path" where
  "makedirs_parts name =
     (if snd (path_split name) = [] then path_split (fst (path_split name))
      else path_split name)"

lemma length_rstrip_sep: "length (rstrip_sep p) \<le> length p"
  by (simp add: rstrip_sep_def) (metis length_dropWhile_le length_rev)

lemma length_path_split:
  "length (fst (path_split p)) + length (snd (path_split p)) \<le> length p"
proof -
  define i where "i = nat (rfind CHR ''/'' p + 1)"
  have "length (rstrip_sep (take i p)) \<le> length (take i p)"
    by (rule length_rstrip_sep)
  then have "length (fst (path_split p)) \<le> length (take i p)"
    by (simp add: path_split_def Let_def i_def)
  then have "length (fst (path_split p)) + length (drop i p) \<le> length p"
    by simp arith
  moreover have "snd (path_split p) = drop i p"
    by (simp add: path_split_def Let_def i_def)
  ultimately show ?thesis
    by simp
qed

lemma makedirs_parts_shorter:
  "snd (makedirs_parts name) \<noteq> [] \<Longrightarrow> length (fst (makedirs_parts name)) < length name"
proof -
  assume t: "snd (makedirs_parts name) \<noteq> []"
  show ?thesis
  proof (cases "snd (path_split name) = []")
    case True
    with t have "snd (path_split (fst (path_split name))) \<noteq> []"
      by (simp add: makedirs_parts_def)
    then have "length (fst (path_split (fst (path_split name)))) < length (fst (path_split name))"
      using length_path_split [of "fst (path_split name)"] by (cases "snd (path_split (fst (path_split name)))") auto
    also have "\<dots> \<le> length name"
      using length_path_split [of name] by simp
    finally show ?thesis using True by (simp add: makedirs_parts_def)
  next
    case False
    then show ?thesis
      using length_path_split [of name] by (cases "snd (path_split name)") (auto simp: makedirs_parts_def)
  qed
qed

function makedirs :: "path \<Rightarrow> unit io" where
  "makedirs name w =
     (if fst (makedirs_parts name) \<noteq> [] \<and> snd (makedirs_parts name) \<noteq> [] \<and>
         \<not> path_exists w (fst (makedirs_parts name))
      then
        (case makedirs (fst (makedirs_parts name)) w of
           (Inl (FileExistsError p), w1) \<Rightarrow>
             if snd (makedirs_parts name) = ''.'' then (Inr (), w1) else mkdir name w1
         | (Inl e, w1) \<Rightarrow> (Inl e, w1)
         | (Inr u, w1) \<Rightarrow>
             if snd (makedirs_parts name) = ''.'' then (Inr (), w1) else mkdir name w1)
      else mkdir name w)"
  by pat_completeness auto
termination
  by (relation "measure (\<lambda>(name, w). length name)") (auto simp: makedirs_parts_shorter)

declare makedirs.simps [simp del]

subsection \<open>Files and archives\<close>

text \<open>
  The built-in \<open>open\<close> in the modes \<open>"wb"\<close> and \<open>"w+b"\<close>: the file is created, or truncated
  when it exists. Neither mode is exclusive.
\<close>

definition open_write :: "path \<Rightarrow> (handle \<times> path) io" where
  "open_write p w =
     (if isdir w p then (Inl (IsADirectoryError p), w)
      else (case folder_error w p of
              Some e \<Rightarrow> (Inl e, w)
            | None \<Rightarrow> (Inr (FileHandle p, p), put p (File (Raw [])) w)))"

text \<open>
  Writing a whole content to a file just opened for writing, which is what
  \<open>output.write(data_file.read())\<close> does.
\<close>

definition file_write :: "path \<Rightarrow> content \<Rightarrow> unit io" where
  "file_write p c w = (Inr (), put p (File c) w)"

text \<open>
  \<open>ZipFile(fname, "r")\<close> and \<open>TarFile.open(fname, "r")\<close>; the latter reads through one layer
  of compression.
\<close>

definition ZipFile :: "path \<Rightarrow> (handle \<times> (string \<times> member) list) io" where
  "ZipFile fname w =
     (case lookup w fname of
        None \<Rightarrow> (Inl (FileNotFoundError fname), w)
      | Some Dir \<Rightarrow> (Inl (IsADirectoryError fname), w)
      | Some (File (ZipArchive es)) \<Rightarrow> (Inr (ArchiveHandle fname, es), w)
      | Some (File c) \<Rightarrow> (Inl (BadArchive fname), w))"

definition TarFile_open :: "path \<Rightarrow> (handle \<times> (string \<times> member) list) io" where
  "TarFile_open fname w =
     (case lookup w fname of
        None \<Rightarrow> (Inl (FileNotFoundError fname), w)
      | Some Dir \<Rightarrow> (Inl (IsADirectoryError fname), w)
      | Some (File (TarArchive es)) \<Rightarrow> (Inr (ArchiveHandle fname, es), w)
      | Some (File (Packed md (TarArchive es))) \<Rightarrow> (Inr (ArchiveHandle fname, es), w)
      | Some (File c) \<Rightarrow> (Inl (BadArchive fname), w))"

text \<open>A name denotes its last entry in the archive.\<close>

definition getmember :: "(string \<times> member) list \<Rightarrow> string \<Rightarrow> member option" where
  "getmember es name = map_of (rev es) name"

text \<open>
  \<open>ZipFile.open(member)\<close>: a \<open>KeyError\<close> for a name the archive does not have, a stream
  otherwise (empty for a directory entry).
\<close>

definition zip_open :: "path \<Rightarrow> (string \<times> member) list \<Rightarrow> string \<Rightarrow> (handle \<times> content) io" where
  "zip_open fname es name w =
     (case getmember es name of
        None \<Rightarrow> (Inl (KeyError name), w)
      | Some (Regular c) \<Rightarrow> (Inr (MemberStream fname name, c), w)
      | Some Directory \<Rightarrow> (Inr (MemberStream fname name, Raw []), w))"

text \<open>
  \<open>TarFile.extractfile(member)\<close>: a \<open>KeyError\<close> for a name the archive does not have,
  \<open>None\<close> for a member that is not a file, and otherwise a stream, which is open from then
  on: no \<open>with\<close> statement guards it.
\<close>

definition extractfile ::
  "path \<Rightarrow> (string \<times> member) list \<Rightarrow> string \<Rightarrow> (handle \<times> content) option io" where
  "extractfile fname es name w =
     (case getmember es name of
        None \<Rightarrow> (Inl (KeyError name), w)
      | Some Directory \<Rightarrow> (Inr None, w)
      | Some (Regular c) \<Rightarrow>
          (Inr (Some (MemberStream fname name, c)),
           w\<lparr>handles := MemberStream fname name # handles w\<rparr>))"

text \<open>\<open>data_file.read()\<close> and \<open>data_file.close()\<close>, where \<open>data_file\<close> may be \<open>None\<close>.\<close>

definition stream_read :: "(handle \<times> content) option \<Rightarrow> content io" where
  "stream_read data_file w =
     (case data_file of
        None \<Rightarrow> (Inl (AttributeError ''read''), w)
      | Some (h, c) \<Rightarrow> (Inr c, w))"

definition stream_close :: "(handle \<times> content) option \<Rightarrow> unit io" where
  "stream_close data_file w =
     (case data_file of
        None \<Rightarrow> (Inl (AttributeError ''close''), w)
      | Some (h, c) \<Rightarrow> (Inr (), w\<lparr>handles := remove1 h (handles w)\<rparr>))"

text \<open>\<open>str.split('/')\<close>.\<close>

fun split_sep :: "string \<Rightarrow> string list" where
  "split_sep [] = [[]]"
| "split_sep (c # cs) =
     (if c = CHR ''/'' then [] # split_sep cs
      else (case split_sep cs of
              [] \<Rightarrow> [[c]]
            | x # xs \<Rightarrow> (c # x) # xs))"

text \<open>
  \<open>extractall\<close> takes the entries in archive order, makes the directories above each target
  and then the target itself. \<open>zipfile\<close> drops the empty, \<open>.\<close> and \<open>..\<close> components of a
  name first and makes a directory only where there is none; \<open>tarfile\<close> joins the name as
  it is and ignores that a directory exists.
\<close>

definition make_upperdirs :: "path \<Rightarrow> unit io" where
  "make_upperdirs targetpath w =
     (if dirname targetpath \<noteq> [] \<and> \<not> path_exists w (dirname targetpath)
      then makedirs (dirname targetpath) w
      else (Inr (), w))"

definition zip_arcname :: "string \<Rightarrow> string" where
  "zip_arcname name =
     str_join ''/'' (filter (\<lambda>x. x \<noteq> [] \<and> x \<noteq> ''.'' \<and> x \<noteq> ''..'') (split_sep name))"

definition zip_extract_member :: "path \<Rightarrow> string \<times> member \<Rightarrow> unit io" where
  "zip_extract_member dir e =
     (let targetpath = (if zip_arcname (fst e) = [] then dir
                        else path_join dir (zip_arcname (fst e)))
      in bind (make_upperdirs targetpath) (\<lambda>u.
           case snd e of
             Directory \<Rightarrow> (\<lambda>w. if isdir w targetpath then (Inr (), w) else mkdir targetpath w)
           | Regular c \<Rightarrow> with_resource (open_write targetpath) (\<lambda>target. file_write target c)))"

definition tar_extract_member :: "path \<Rightarrow> string \<times> member \<Rightarrow> unit io" where
  "tar_extract_member dir e =
     (let targetpath = rstrip_sep (path_join dir (fst e))
      in bind (make_upperdirs targetpath) (\<lambda>u.
           case snd e of
             Directory \<Rightarrow>
               (\<lambda>w. case mkdir targetpath w of
                      (Inl (FileExistsError p), w') \<Rightarrow> (Inr (), w')
                    | r \<Rightarrow> r)
           | Regular c \<Rightarrow> with_resource (open_write targetpath) (\<lambda>target. file_write target c)))"

definition zip_extractall :: "(string \<times> member) list \<Rightarrow> path \<Rightarrow> unit io" where
  "zip_extractall es dir = for_each (zip_extract_member dir) es"

definition tar_extractall :: "(string \<times> member) list \<Rightarrow> path \<Rightarrow> unit io" where
  "tar_extractall es dir = for_each (tar_extract_member dir) es"

text \<open>
  The comprehension over \<open>os.walk(extract_dir)\<close>,
  \<open>[os.path.join(path, fname) for path, _, files in os.walk(extract_dir) for fname in files]\<close>.
  The walk is top-down: it scans a directory, yields the triple of the directory, its
  sub-directories and its other entries, and then walks each sub-directory in turn, so that the
  files of a directory come before those of its sub-directories. A path that is no directory
  makes the scan fail, an error that \<open>os.walk\<close> ignores: it yields nothing.

  \<open>below dir p\<close> says that \<open>p\<close> lies under \<open>dir\<close> at any depth; the entries of
  \<open>dir\<close> are the paths under it with a single component left. The scan lists them in the
  order the paths were created in.
\<close>

definition below :: "path \<Rightarrow> path \<Rightarrow> bool" where
  "below dir p =
     (length (path_join dir []) < length p \<and> take (length (path_join dir [])) p = path_join dir [])"

definition is_file :: "node \<Rightarrow> bool" where
  "is_file n = (case n of File c \<Rightarrow> True | Dir \<Rightarrow> False)"

definition scandir :: "world \<Rightarrow> path \<Rightarrow> (string \<times> node) list" where
  "scandir w dir =
     map (\<lambda>e. (drop (length (path_join dir [])) (fst e), snd e))
       (filter (\<lambda>e. below dir (fst e) \<and>
                    CHR ''/'' \<notin> set (drop (length (path_join dir [])) (fst e))) (fs w))"

definition walk_dirs :: "world \<Rightarrow> path \<Rightarrow> string list" where
  "walk_dirs w dir = map fst (filter (\<lambda>e. \<not> is_file (snd e)) (scandir w dir))"

definition walk_nondirs :: "world \<Rightarrow> path \<Rightarrow> string list" where
  "walk_nondirs w dir = map fst (filter (\<lambda>e. is_file (snd e)) (scandir w dir))"

text \<open>
  The walk ends because a sub-directory has fewer paths under it than its parent: all of them
  are under the parent, and the sub-directory itself is not under itself.
\<close>

lemma path_join_child:
  assumes "d \<noteq> []" and "CHR ''/'' \<notin> set d"
  shows "path_join dir d = path_join dir [] @ d"
proof -
  have "hd d \<noteq> CHR ''/''"
    using assms by (cases d) auto
  with assms(1) show ?thesis
    by (simp add: path_join_def)
qed

lemma walk_dirs_child:
  assumes "d \<in> set (walk_dirs w dir)"
  shows "d \<noteq> [] \<and> CHR ''/'' \<notin> set d \<and> path_join dir [] @ d \<in> fst ` set (fs w)"
proof -
  let ?pl = "length (path_join dir [])"
  obtain e where e: "e \<in> set (fs w)" "below dir (fst e)" "CHR ''/'' \<notin> set (drop ?pl (fst e))"
    "d = drop ?pl (fst e)"
    using assms by (auto simp: walk_dirs_def scandir_def)
  have "take ?pl (fst e) = path_join dir []" "?pl < length (fst e)"
    using e(2) by (simp_all add: below_def)
  then have "fst e = path_join dir [] @ d" "d \<noteq> []"
    using e(4) by (metis append_take_drop_id, simp)
  with e(1,3,4) show ?thesis
    by (metis image_eqI)
qed

lemma below_child:
  assumes "d \<noteq> []" and "CHR ''/'' \<notin> set d" and "below (path_join dir d) k"
  shows "below dir k"
proof -
  let ?pj = "path_join dir []"
  let ?c = "path_join dir d"
  have c: "?c = ?pj @ d"
    using assms(1,2) by (rule path_join_child)
  have "last d \<noteq> CHR ''/''"
    using assms(1,2) by (metis last_in_set)
  then have "last ?c \<noteq> CHR ''/''" "?c \<noteq> []"
    using assms(1) by (simp_all add: c)
  then have j: "path_join ?c [] = ?c @ ''/''"
    by (simp add: path_join_def)
  from assms(3) have l: "length (?c @ ''/'') < length k" and t: "take (length (?c @ ''/'')) k = ?c @ ''/''"
    by (simp_all add: below_def j)
  have "k = (?c @ ''/'') @ drop (length (?c @ ''/'')) k"
    using t by (metis append_take_drop_id)
  then have "k = ?pj @ (d @ ''/'' @ drop (length (?c @ ''/'')) k)"
    by (simp add: c)
  then obtain r where "k = ?pj @ r" ..
  then have "take (length ?pj) k = ?pj"
    by simp
  moreover have "length ?pj < length k"
    using l by (simp add: c)
  ultimately show ?thesis
    by (simp add: below_def)
qed

lemma not_below_self: "\<not> below p p"
  by (auto simp: below_def path_join_def)

lemma below_child_self:
  assumes "d \<noteq> []" and "CHR ''/'' \<notin> set d"
  shows "below dir (path_join dir d)"
  using assms by (simp add: below_def path_join_child)

lemma walk_measure:
  assumes "x \<in> set (map (path_join dir) (walk_dirs w dir))"
  shows "length (filter (\<lambda>e. below x (fst e)) (fs w)) <
         length (filter (\<lambda>e. below dir (fst e)) (fs w))"
proof -
  obtain d where d: "d \<in> set (walk_dirs w dir)" "x = path_join dir d"
    using assms by auto
  have c: "d \<noteq> []" "CHR ''/'' \<notin> set d" "path_join dir [] @ d \<in> fst ` set (fs w)"
    using walk_dirs_child [OF d(1)] by simp_all
  have x: "x = path_join dir [] @ d"
    using c(1,2) d(2) by (simp add: path_join_child)
  obtain e where e: "e \<in> set (fs w)" "fst e = x"
    using c(3) x by auto
  have sub: "filter (\<lambda>e. below x (fst e)) (fs w) =
      filter (\<lambda>e. below x (fst e)) (filter (\<lambda>e. below dir (fst e)) (fs w))"
    using below_child [OF c(1,2)] d(2) by (auto intro: filter_cong)
  have "e \<in> set (filter (\<lambda>e. below dir (fst e)) (fs w))"
    using e below_child_self [OF c(1,2), of dir] d(2) by simp
  moreover have "\<not> below x (fst e)"
    using e(2) not_below_self by simp
  ultimately have "length (filter (\<lambda>e. below x (fst e)) (filter (\<lambda>e. below dir (fst e)) (fs w))) <
      length (filter (\<lambda>e. below dir (fst e)) (fs w))"
    by (rule length_filter_less)
  then show ?thesis
    by (simp only: sub [symmetric])
qed

function walk :: "world \<Rightarrow> path \<Rightarrow> (path \<times> string list \<times> string list) list" where
  "walk w dir =
     (if isdir w dir
      then (dir, walk_dirs w dir, walk_nondirs w dir) #
           concat (map (walk w) (map (path_join dir) (walk_dirs w dir)))
      else [])"
  by pat_completeness auto

termination
  by (relation "measure (\<lambda>(w, dir). length (filter (\<lambda>e. below dir (fst e)) (fs w)))")
    (auto simp: walk_measure simp del: set_map)

declare walk.simps [simp del]

definition walk_files :: "world \<Rightarrow> path \<Rightarrow> path list" where
  "walk_files w dir =
     concat (map (\<lambda>(path, dirs, files). map (path_join path) files) (walk w dir))"

subsection \<open>The extractors\<close>

text \<open>
  A processor object: its class gives \<open>suffix\<close> and the method \<open>_extract_file\<close>, its
  constructor stores \<open>members\<close>. The method receives \<open>self.members\<close>, the archive and the
  destination.
\<close>

record extractor =
  suffix :: "string option"
  members :: "string list option"
  extract_file :: "string list option \<Rightarrow> path \<Rightarrow> path \<Rightarrow> unit io"

definition extracting_message :: "string \<Rightarrow> path \<Rightarrow> path \<Rightarrow> string" where
  "extracting_message member fname extract_dir =
     ''Extracting '' @ quoted member @ '' from '' @ quoted fname @ '' to '' @ quoted extract_dir"

text \<open>\<open>ExtractorProcessor._extract_file\<close>.\<close>

definition ExtractorProcessor_extract_file :: "string list option \<Rightarrow> path \<Rightarrow> path \<Rightarrow> unit io" where
  "ExtractorProcessor_extract_file ms fname extract_dir = raise (NotImplementedError [])"

text \<open>\<open>Unzip._extract_file\<close>; \<open>Unzip_member\<close> is the body of its loop over the members.\<close>

definition Unzip_member :: "path \<Rightarrow> (string \<times> member) list \<Rightarrow> path \<Rightarrow> string \<Rightarrow> unit io" where
  "Unzip_member fname zip_file extract_dir member =
     bind (warn (extracting_message member fname extract_dir)) (\<lambda>u.
       with_resource (zip_open fname zip_file member) (\<lambda>data_file.
         with_resource (open_write (path_join extract_dir member)) (\<lambda>output.
           file_write output data_file)))"

definition Unzip_extract_file :: "string list option \<Rightarrow> path \<Rightarrow> path \<Rightarrow> unit io" where
  "Unzip_extract_file ms fname extract_dir =
     with_resource (ZipFile fname) (\<lambda>zip_file.
       case ms of
         None \<Rightarrow>
           bind (warn (''Unzipping contents of '' @ quoted fname @ '' to '' @ quoted extract_dir))
             (\<lambda>u. zip_extractall zip_file extract_dir)
       | Some names \<Rightarrow> for_each (Unzip_member fname zip_file extract_dir) names)"

text \<open>\<open>Untar._extract_file\<close>, with the body of its loop.\<close>

definition Untar_member :: "path \<Rightarrow> (string \<times> member) list \<Rightarrow> path \<Rightarrow> string \<Rightarrow> unit io" where
  "Untar_member fname tar_file extract_dir member =
     bind (warn (extracting_message member fname extract_dir)) (\<lambda>u.
       bind (extractfile fname tar_file member) (\<lambda>data_file.
         try_finally
           (with_resource (open_write (path_join extract_dir member)) (\<lambda>output.
              bind (stream_read data_file) (\<lambda>data. file_write output data)))
           (stream_close data_file)))"

definition Untar_extract_file :: "string list option \<Rightarrow> path \<Rightarrow> path \<Rightarrow> unit io" where
  "Untar_extract_file ms fname extract_dir =
     with_resource (TarFile_open fname) (\<lambda>tar_file.
       case ms of
         None \<Rightarrow>
           bind (warn (''Untarring contents of '' @ quoted fname @ '' to '' @ quoted extract_dir))
             (\<lambda>u. tar_extractall tar_file extract_dir)
       | Some names \<Rightarrow> for_each (Untar_member fname tar_file extract_dir) names)"

text \<open>The three classes, as their constructors.\<close>

definition ExtractorProcessor :: "string list option \<Rightarrow> extractor" where
  "ExtractorProcessor ms =
     \<lparr>suffix = None, members = ms, extract_file = ExtractorProcessor_extract_file\<rparr>"

definition Unzip :: "string list option \<Rightarrow> extractor" where
  "Unzip ms = \<lparr>suffix = Some ''.unzip'', members = ms, extract_file = Unzip_extract_file\<rparr>"

definition Untar :: "string list option \<Rightarrow> extractor" where
  "Untar ms = \<lparr>suffix = Some ''.untar'', members = ms, extract_file = Untar_extract_file\<rparr>"

definition suffix_missing :: string where
  "suffix_missing = ''Derived classes must define the '' @ quoted ''suffix'' @ '' attribute.''"

text \<open>Whether the processor has to run again: the condition both \<open>__call__\<close> methods test.\<close>

definition refresh :: "world \<Rightarrow> string \<Rightarrow> path \<Rightarrow> bool" where
  "refresh w action target = (action \<in> set [''update'', ''download''] \<or> \<not> path_exists w target)"

text \<open>\<open>ExtractorProcessor.__call__\<close>. The call of \<open>self._extract_file\<close> is logged.\<close>

definition ExtractorProcessor_call :: "extractor \<Rightarrow> path \<Rightarrow> string \<Rightarrow> path list io" where
  "ExtractorProcessor_call self fname action w =
     (case suffix self of
        None \<Rightarrow> (Inl (NotImplementedError suffix_missing), w)
      | Some sfx \<Rightarrow>
          (let extract_dir = fname @ sfx in
           if refresh w action extract_dir then
             (case (if \<not> path_exists w extract_dir then makedirs extract_dir w
                    else (Inr (), w)) of
                (Inl e, w1) \<Rightarrow> (Inl e, w1)
              | (Inr u, w1) \<Rightarrow>
                  (case extract_file self (members self) fname extract_dir
                          (w1\<lparr>unpack_log := unpack_log w1 @ [(fname, extract_dir)]\<rparr>) of
                     (Inl e, w2) \<Rightarrow> (Inl e, w2)
                   | (Inr u', w2) \<Rightarrow> (Inr (walk_files w2 extract_dir), w2)))
           else (Inr (walk_files w extract_dir), w)))"

subsection \<open>Decompress\<close>

text \<open>
  \<open>module.open(fname)\<close>, a read stream of the decompressed data. Opening needs the file to
  be there; that it is not a stream of the module only shows when it is read.
\<close>

definition module_open :: "pymodule \<Rightarrow> path \<Rightarrow> (handle \<times> (error + content)) io" where
  "module_open md fname w =
     (case lookup w fname of
        None \<Rightarrow> (Inl (FileNotFoundError fname), w)
      | Some Dir \<Rightarrow> (Inl (IsADirectoryError fname), w)
      | Some (File (Packed md' c)) \<Rightarrow>
          (Inr (CodecStream fname, if md' = md then Inr c else Inl (BadStream fname)), w)
      | Some (File c) \<Rightarrow> (Inr (CodecStream fname, Inl (BadStream fname)), w))"

text \<open>
  \<open>shutil.copyfileobj\<close> from such a stream to a file open for writing: the loop
  \<open>while True: buf = fsrc.read(length); if not buf: break; fdst.write(buf)\<close> with the default
  \<open>length\<close>. \<open>read_chunks\<close> lists what the successive reads return and \<open>file_append\<close> is one
  write at the end of the file. The bytes of a content that is itself an archive or a
  compressed stream are not modelled, so it is handed over in one piece.
\<close>

definition COPY_BUFSIZE :: nat where
  "COPY_BUFSIZE = 64 * 1024"

function read_chunks :: "nat \<Rightarrow> string \<Rightarrow> string list" where
  "read_chunks n s = (if n = 0 \<or> s = [] then [] else take n s # read_chunks n (drop n s))"
  by pat_completeness auto
termination
  by (relation "measure (\<lambda>(n, s). length s)") auto

declare read_chunks.simps [simp del]

definition file_append :: "path \<Rightarrow> string \<Rightarrow> unit io" where
  "file_append p buf w =
     (case lookup w p of
        Some (File (Raw old)) \<Rightarrow> (Inr (), put p (File (Raw (old @ buf))) w)
      | _ \<Rightarrow> (Inr (), put p (File (Raw buf)) w))"

definition copyfileobj :: "error + content \<Rightarrow> path \<Rightarrow> unit io" where
  "copyfileobj compressed output =
     (case compressed of
        Inl e \<Rightarrow> raise e
      | Inr (Raw s) \<Rightarrow> for_each (file_append output) (read_chunks COPY_BUFSIZE s)
      | Inr c \<Rightarrow> file_write output c)"

definition decompressing_message :: "path \<Rightarrow> path \<Rightarrow> string \<Rightarrow> string" where
  "decompressing_message fname decompressed m =
     ''Decompressing '' @ quoted fname @ '' to '' @ quoted decompressed @
     '' using method '' @ quoted m @ ''.''"

text \<open>\<open>Decompress.__call__\<close>.\<close>

definition Decompress_call :: "decompress \<Rightarrow> path \<Rightarrow> string \<Rightarrow> path io" where
  "Decompress_call self fname action w =
     (let decompressed = fname @ ''.decomp'' in
      if refresh w action decompressed then
        bind (warn (decompressing_message fname decompressed (method' self))) (\<lambda>u.
          bind (\<lambda>w'. (compression_module self fname, w')) (\<lambda>md.
            bind (with_resource (open_write decompressed) (\<lambda>output.
                    with_resource (module_open md fname) (\<lambda>compressed.
                      copyfileobj compressed output)))
              (\<lambda>u'. return decompressed))) w
      else (Inr decompressed, w))"

subsection \<open>Members named by a plain file name\<close>

text \<open>A member name without a folder part.\<close>

definition plain :: "string \<Rightarrow> bool" where
  "plain m = (m \<noteq> [] \<and> CHR ''/'' \<notin> set m)"

text \<open>The world after the step for one member that is written.\<close>

definition member_written :: "path \<Rightarrow> path \<Rightarrow> string \<Rightarrow> content \<Rightarrow> world \<Rightarrow> world" where
  "member_written fname dir m c w =
     put (dir @ ''/'' @ m) (File c)
       (w\<lparr>warnings := warnings w @ [extracting_message m fname dir]\<rparr>)"

text \<open>What the archive holds under a name, when that is a file.\<close>

definition held :: "(string \<times> member) list \<Rightarrow> string \<Rightarrow> content" where
  "held es m = (case getmember es m of Some (Regular c) \<Rightarrow> c | _ \<Rightarrow> Raw [])"

subsection \<open>Worlds to run the processors in\<close>

text \<open>A world with the given files, no warning emitted yet and nothing open.\<close>

definition store :: "(path \<times> node) list \<Rightarrow> world" where
  "store files = \<lparr>fs = files, warnings = [], handles = [], unpack_log = []\<rparr>"

subsection \<open>What a step may not undo\<close>

text \<open>
  A step from one world to another is steady when every path that existed still exists, the
  same handles are open, and the log of unpack calls is the same; a command keeps the world
  steady when it does so from every world, whether it returns or raises.
\<close>

definition steady :: "world \<Rightarrow> world \<Rightarrow> bool" where
  "steady w w' =
     (fst ` set (fs w) \<subseteq> fst ` set (fs w') \<and> handles w' = handles w \<and>
      unpack_log w' = unpack_log w)"

definition keeps :: "'a io \<Rightarrow> bool" where
  "keeps m = (\<forall>w. steady w (snd (m w)))"

section \<open>Properties\<close>

text \<open>The definitions that the evaluation of a path test on a given world unfolds.\<close>

lemmas eval_defs = store_def lookup_def path_exists_def isdir_def folder_exists_def dirname_def
  path_split_def rfind_def rstrip_sep_def Let_def refresh_def

text \<open>The same for the walk of a directory, and for a run of an extractor.\<close>

lemmas walk_defs = walk_files_def walk.simps walk_dirs_def walk_nondirs_def scandir_def below_def
  path_join_def is_file_def

lemmas run_defs = ExtractorProcessor_call_def Unzip_def Untar_def Unzip_extract_file_def
  Unzip_member_def Untar_extract_file_def Untar_member_def with_resource_def bind_def warn_def
  try_finally_def ZipFile_def TarFile_open_def zip_open_def extractfile_def stream_read_def
  stream_close_def open_write_def file_write_def folder_error_def getmember_def put_def
  zip_extractall_def tar_extractall_def zip_extract_member_def tar_extract_member_def
  make_upperdirs_def mkdir_def

subsection \<open>The compression module\<close>

text \<open>
  C4. With the method \<open>auto\<close> the module follows from the extension of the input path, as
  \<open>os.path.splitext\<close> gives it: \<open>.xz\<close> is lzma, \<open>.gz\<close> is gzip, \<open>.bz2\<close> is bzip2, and any
  other extension is a \<open>ValueError\<close> whose message names the extension and the recognised
  ones. An explicit method is one of \<open>lzma\<close>, \<open>xz\<close>, \<open>gzip\<close>, \<open>bzip2\<close>, and any other name is
  a \<open>ValueError\<close> whose message names the method and the valid ones.
\<close>

theorem compression_module_resolution:
  "compression_module (Decompress m) fname =
     (if m = ''auto'' then
        (if snd (splitext fname) = ''.xz'' then Inr Lzma
         else if snd (splitext fname) = ''.gz'' then Inr Gzip
         else if snd (splitext fname) = ''.bz2'' then Inr Bz2
         else Inl (ValueError
                (''Unrecognized extension '' @ quoted (snd (splitext fname)) @
                 ''. Must be one of '' @ quoted ''['.xz', '.gz', '.bz2']'' @ ''.'')))
      else if m = ''lzma'' \<or> m = ''xz'' then Inr Lzma
      else if m = ''gzip'' then Inr Gzip
      else if m = ''bzip2'' then Inr Bz2
      else Inl (ValueError
             (''Invalid compression method '' @ quoted m @
              ''. Must be one of '' @ quoted ''['lzma', 'xz', 'gzip', 'bzip2']'' @ ''.'')))"
  by (simp add: compression_module_def Decompress_def valid_methods_def modules_def
      unrecognized_extension_def invalid_method_def list_repr_def quoted_def sq_def)

theorem compression_module_resolution_witness:
  "compression_module (Decompress ''auto'') ''values.csv.gz'' = Inr Gzip \<and>
   compression_module (Decompress ''auto'') ''data.tar.xz'' = Inr Lzma \<and>
   compression_module (Decompress ''auto'') ''a/b.c/notes.bz2'' = Inr Bz2 \<and>
   compression_module (Decompress ''auto'') ''values.zip'' =
     Inl (ValueError (''Unrecognized extension '' @ quoted ''.zip'' @
                 ''. Must be one of '' @ quoted ''['.xz', '.gz', '.bz2']'' @ ''.'')) \<and>
   compression_module (Decompress ''xz'') ''values.zip'' = Inr Lzma \<and>
   compression_module (Decompress ''zip'') ''values.csv.gz'' =
     Inl (ValueError (''Invalid compression method '' @ quoted ''zip'' @
              ''. Must be one of '' @ quoted ''['lzma', 'xz', 'gzip', 'bzip2']'' @ ''.''))"
  using compression_module_resolution [of "''auto''" "''values.csv.gz''"]
    compression_module_resolution [of "''auto''" "''data.tar.xz''"]
    compression_module_resolution [of "''auto''" "''a/b.c/notes.bz2''"]
    compression_module_resolution [of "''auto''" "''values.zip''"]
    compression_module_resolution [of "''xz''" "''values.zip''"]
    compression_module_resolution [of "''zip''" "''values.csv.gz''"]
  by (simp add: splitext_def rfind_def)

subsection \<open>Paths and the file system\<close>

lemma lookup_put: "lookup (put p n w) q = (if q = p then Some n else lookup w q)"
  by (simp add: lookup_def put_def update_conv')

lemma put_fields:
  "warnings (put p n w) = warnings w" "handles (put p n w) = handles w"
  "unpack_log (put p n w) = unpack_log w"
  by (simp_all add: put_def)

lemma lookup_fields:
  "lookup (w\<lparr>warnings := ws\<rparr>) = lookup w" "lookup (w\<lparr>handles := hs\<rparr>) = lookup w"
  "lookup (w\<lparr>unpack_log := ul\<rparr>) = lookup w"
  by (simp_all add: lookup_def fun_eq_iff)

lemma rfind_less: "rfind c p < int (length p)"
  by (simp add: rfind_def)

lemma rfind_append: "c \<notin> set s \<Longrightarrow> rfind c (p @ s) = rfind c p"
proof -
  assume s: "c \<notin> set s"
  then have "takeWhile (\<lambda>x. x \<noteq> c) (rev s @ rev p) = rev s @ takeWhile (\<lambda>x. x \<noteq> c) (rev p)"
    by (intro takeWhile_append2) auto
  with s show ?thesis
    by (simp add: rfind_def)
qed

text \<open>A suffix without a slash leaves the directory part of a path as it is.\<close>

lemma path_split_append:
  assumes "CHR ''/'' \<notin> set s"
  shows "path_split (p @ s) = (fst (path_split p), snd (path_split p) @ s)"
proof -
  define i where "i = nat (rfind CHR ''/'' p + 1)"
  have "i \<le> length p"
    using rfind_less [of "CHR ''/''" p] by (simp add: i_def)
  then have "take i (p @ s) = take i p" "drop i (p @ s) = drop i p @ s"
    by simp_all
  moreover have "nat (rfind CHR ''/'' (p @ s) + 1) = i"
    using assms by (simp add: rfind_append i_def)
  ultimately show ?thesis
    by (simp only: path_split_def Let_def i_def [symmetric] fst_conv snd_conv)
qed

lemma dirname_append: "CHR ''/'' \<notin> set s \<Longrightarrow> dirname (p @ s) = dirname p"
  by (simp add: dirname_def path_split_append)

lemma folder_exists_append:
  "CHR ''/'' \<notin> set s \<Longrightarrow> folder_exists w (p @ s) = folder_exists w p"
  by (simp add: folder_exists_def dirname_append)

subsection \<open>What a call of Decompress does\<close>

lemma open_write_ok:
  "folder_exists w p \<Longrightarrow> \<not> isdir w p \<Longrightarrow> p \<noteq> [] \<Longrightarrow>
   open_write p w = (Inr (FileHandle p, p), put p (File (Raw [])) w)"
  by (simp add: open_write_def folder_error_def)

lemma world_fields:
  "folder_exists (w\<lparr>warnings := ws\<rparr>) = folder_exists w"
  "isdir (w\<lparr>warnings := ws\<rparr>) = isdir w"
  "path_exists (w\<lparr>warnings := ws\<rparr>) = path_exists w"
  "folder_exists (w\<lparr>handles := hs\<rparr>) = folder_exists w"
  "isdir (w\<lparr>handles := hs\<rparr>) = isdir w"
  "path_exists (w\<lparr>handles := hs\<rparr>) = path_exists w"
  "folder_exists (w\<lparr>unpack_log := ul\<rparr>) = folder_exists w"
  "isdir (w\<lparr>unpack_log := ul\<rparr>) = isdir w"
  "path_exists (w\<lparr>unpack_log := ul\<rparr>) = path_exists w"
  by (simp_all add: folder_exists_def isdir_def path_exists_def lookup_fields fun_eq_iff)

lemma put_put: "put p n (put p n' w) = put p n w"
  by (simp add: put_def)

lemma put_update:
  "(put p n w)\<lparr>handles := hs\<rparr> = put p n (w\<lparr>handles := hs\<rparr>)"
  "(put p n w)\<lparr>warnings := ws\<rparr> = put p n (w\<lparr>warnings := ws\<rparr>)"
  "(put p n w)\<lparr>unpack_log := ul\<rparr> = put p n (w\<lparr>unpack_log := ul\<rparr>)"
  by (simp_all add: put_def)

lemma module_open_stream:
  "lookup w fname = Some (File (Packed md c)) \<Longrightarrow>
   module_open md fname w = (Inr (CodecStream fname, Inr c), w)"
  by (simp add: module_open_def)

lemma module_open_missing:
  "lookup w fname = None \<Longrightarrow> module_open md fname w = (Inl (FileNotFoundError fname), w)"
  by (simp add: module_open_def)

text \<open>
  The chunks are not empty, none is longer than the buffer, and together they are the stream;
  written one after the other to a file that holds \<open>acc\<close>, they leave \<open>acc\<close> followed by the
  whole stream.
\<close>

lemma read_chunks_concat: "0 < n \<Longrightarrow> concat (read_chunks n s) = s"
proof (induction n s rule: read_chunks.induct)
  case (1 n s)
  show ?case
  proof (cases "s = []")
    case True
    then show ?thesis
      by (subst read_chunks.simps) simp
  next
    case False
    with 1 show ?thesis
      by (subst read_chunks.simps) simp
  qed
qed

lemma read_chunks_bounded:
  "buf \<in> set (read_chunks n s) \<Longrightarrow> buf \<noteq> [] \<and> length buf \<le> n"
proof (induction n s rule: read_chunks.induct)
  case (1 n s)
  show ?case
  proof (cases "n = 0 \<or> s = []")
    case True
    with "1.prems" show ?thesis
      by (subst (asm) read_chunks.simps) simp
  next
    case False
    from "1.prems" have "buf = take n s \<or> buf \<in> set (read_chunks n (drop n s))"
      by (subst (asm) read_chunks.simps) (simp add: False)
    with False "1.IH" show ?thesis
      by auto
  qed
qed

lemma put_same: "lookup w p = Some n \<Longrightarrow> put p n w = w"
  by (simp add: put_def lookup_def update_triv)

lemma copy_chunks:
  "0 < n \<Longrightarrow> lookup w p = Some (File (Raw acc)) \<Longrightarrow>
   for_each (file_append p) (read_chunks n s) w = (Inr (), put p (File (Raw (acc @ s))) w)"
proof (induction n s arbitrary: acc w rule: read_chunks.induct)
  case (1 n s)
  show ?case
  proof (cases "s = []")
    case True
    then have "read_chunks n s = []"
      by (subst read_chunks.simps) simp
    with True "1.prems"(2) show ?thesis
      by (simp add: put_same)
  next
    case False
    let ?w1 = "put p (File (Raw (acc @ take n s))) w"
    have c: "read_chunks n s = take n s # read_chunks n (drop n s)"
      using False "1.prems"(1) by (subst read_chunks.simps) simp
    have a: "file_append p (take n s) w = (Inr (), ?w1)"
      using "1.prems"(2) by (simp add: file_append_def)
    have "lookup ?w1 p = Some (File (Raw (acc @ take n s)))"
      by (simp add: lookup_put)
    then have "for_each (file_append p) (read_chunks n (drop n s)) ?w1 =
        (Inr (), put p (File (Raw ((acc @ take n s) @ drop n s))) ?w1)"
      using False "1.prems"(1) by (intro "1.IH") simp_all
    then show ?thesis
      by (simp add: c a put_put)
  qed
qed

lemma copyfileobj_whole:
  assumes "lookup w p = Some (File (Raw []))"
  shows "copyfileobj (Inr c) p w = (Inr (), put p (File c) w)"
proof (cases c)
  case (Raw s)
  have "for_each (file_append p) (read_chunks COPY_BUFSIZE s) w =
      (Inr (), put p (File (Raw ([] @ s))) w)"
    using assms by (intro copy_chunks) (simp_all add: COPY_BUFSIZE_def)
  with Raw show ?thesis
    by (simp add: copyfileobj_def)
qed (simp_all add: copyfileobj_def file_write_def)

lemma Decompress_call_success:
  assumes r: "refresh w action (fname @ ''.decomp'')"
    and md: "compression_module self fname = Inr md"
    and out: "folder_exists w fname" "\<not> isdir w (fname @ ''.decomp'')"
    and src: "lookup w fname = Some (File (Packed md c))"
  shows "Decompress_call self fname action w =
     (Inr (fname @ ''.decomp''),
      put (fname @ ''.decomp'') (File c)
        (w\<lparr>warnings := warnings w @ [decompressing_message fname (fname @ ''.decomp'') (method' self)]\<rparr>))"
proof -
  let ?d = "fname @ ''.decomp''"
  let ?w1 = "w\<lparr>warnings := warnings w @ [decompressing_message fname ?d (method' self)]\<rparr>"
  have ow: "open_write ?d ?w1 = (Inr (FileHandle ?d, ?d), put ?d (File (Raw [])) ?w1)"
    using out by (intro open_write_ok) (simp_all add: folder_exists_append world_fields)
  show ?thesis
    using r md src
    by (simp add: Decompress_call_def Let_def bind_def warn_def with_resource_def ow
        module_open_stream lookup_fields lookup_put put_fields put_update put_put
        copyfileobj_whole return_def)
qed

lemma Decompress_call_missing:
  assumes r: "refresh w action (fname @ ''.decomp'')"
    and md: "compression_module self fname = Inr md"
    and out: "folder_exists w fname" "\<not> isdir w (fname @ ''.decomp'')"
    and src: "lookup w fname = None"
  shows "Decompress_call self fname action w =
     (Inl (FileNotFoundError fname),
      put (fname @ ''.decomp'') (File (Raw []))
        (w\<lparr>warnings := warnings w @ [decompressing_message fname (fname @ ''.decomp'') (method' self)]\<rparr>))"
proof -
  let ?d = "fname @ ''.decomp''"
  let ?w1 = "w\<lparr>warnings := warnings w @ [decompressing_message fname ?d (method' self)]\<rparr>"
  have ow: "open_write ?d ?w1 = (Inr (FileHandle ?d, ?d), put ?d (File (Raw [])) ?w1)"
    using out by (intro open_write_ok) (simp_all add: folder_exists_append world_fields)
  show ?thesis
    using r md src
    by (simp add: Decompress_call_def Let_def bind_def warn_def with_resource_def ow
        module_open_missing lookup_fields lookup_put put_fields put_update put_put
        return_def)
qed

lemma compression_module_auto_gz:
  "snd (splitext fname) = ''.gz'' \<Longrightarrow> compression_module (Decompress ''auto'') fname = Inr Gzip"
  by (simp add: compression_module_def Decompress_def valid_methods_def modules_def)

lemma compression_module_gzip: "compression_module (Decompress ''gzip'') fname = Inr Gzip"
  by (simp add: compression_module_def Decompress_def modules_def)

lemma Decompress_call_skip:
  "\<not> refresh w action (fname @ ''.decomp'') \<Longrightarrow>
   Decompress_call self fname action w = (Inr (fname @ ''.decomp''), w)"
  by (simp add: Decompress_call_def)

lemma Decompress_call_returns:
  "Decompress_call self fname action w = (Inr p, w') \<Longrightarrow> p = fname @ ''.decomp''"
  by (auto simp: Decompress_call_def Let_def bind_def return_def warn_def
      split: if_splits prod.splits sum.splits)

lemma Decompress_call_invalid:
  assumes "refresh w action (fname @ ''.decomp'')"
    and "compression_module self fname = Inl e"
  shows "Decompress_call self fname action w =
     (Inl e, w\<lparr>warnings := warnings w @ [decompressing_message fname (fname @ ''.decomp'') (method' self)]\<rparr>)"
  using assms by (simp add: Decompress_call_def Let_def bind_def warn_def)

text \<open>
  C3. A call of \<open>Decompress\<close> that returns, returns the input path with \<open>.decomp\<close> appended.
  With the action \<open>fetch\<close> and the output there, it returns at once and leaves the world as
  it is: nothing is decompressed. Otherwise (the action is \<open>download\<close> or \<open>update\<close>, or the
  output is missing) it decompresses: when the module is found, the input is a stream of that
  module and the output can be opened, the output holds the decompressed content afterwards
  and no other path has changed.
\<close>

theorem Decompress_call_policy:
  "(\<forall>p w'. Decompress_call self fname action w = (Inr p, w') \<longrightarrow> p = fname @ ''.decomp'') \<and>
   (action = ''fetch'' \<and> path_exists w (fname @ ''.decomp'') \<longrightarrow>
      Decompress_call self fname action w = (Inr (fname @ ''.decomp''), w)) \<and>
   ((action = ''download'' \<or> action = ''update'' \<or> \<not> path_exists w (fname @ ''.decomp'')) \<and>
    compression_module self fname = Inr md \<and> lookup w fname = Some (File (Packed md c)) \<and>
    folder_exists w fname \<and> \<not> isdir w (fname @ ''.decomp'') \<longrightarrow>
      fst (Decompress_call self fname action w) = Inr (fname @ ''.decomp'') \<and>
      lookup (snd (Decompress_call self fname action w)) (fname @ ''.decomp'') = Some (File c) \<and>
      (\<forall>q. q \<noteq> fname @ ''.decomp'' \<longrightarrow>
         lookup (snd (Decompress_call self fname action w)) q = lookup w q))"
proof (intro conjI allI impI)
  fix p w'
  assume "Decompress_call self fname action w = (Inr p, w')"
  then show "p = fname @ ''.decomp''"
    by (rule Decompress_call_returns)
next
  assume "action = ''fetch'' \<and> path_exists w (fname @ ''.decomp'')"
  then have "\<not> refresh w action (fname @ ''.decomp'')"
    by (simp add: refresh_def)
  then show "Decompress_call self fname action w = (Inr (fname @ ''.decomp''), w)"
    by (rule Decompress_call_skip)
next
  assume a: "(action = ''download'' \<or> action = ''update'' \<or> \<not> path_exists w (fname @ ''.decomp'')) \<and>
    compression_module self fname = Inr md \<and> lookup w fname = Some (File (Packed md c)) \<and>
    folder_exists w fname \<and> \<not> isdir w (fname @ ''.decomp'')"
  then have "refresh w action (fname @ ''.decomp'')"
    by (auto simp: refresh_def)
  with a have run: "Decompress_call self fname action w =
     (Inr (fname @ ''.decomp''),
      put (fname @ ''.decomp'') (File c)
        (w\<lparr>warnings := warnings w @ [decompressing_message fname (fname @ ''.decomp'') (method' self)]\<rparr>))"
    by (intro Decompress_call_success) simp_all
  show "fst (Decompress_call self fname action w) = Inr (fname @ ''.decomp'')"
    by (simp add: run)
  show "lookup (snd (Decompress_call self fname action w)) (fname @ ''.decomp'') = Some (File c)"
    by (simp add: run lookup_put)
  fix q
  assume "q \<noteq> fname @ ''.decomp''"
  then show "lookup (snd (Decompress_call self fname action w)) q = lookup w q"
    by (simp add: run lookup_put lookup_fields)
qed

theorem Decompress_call_policy_witness:
  "Decompress_call (Decompress ''auto'') ''values.csv.gz'' ''fetch''
     (store [(''values.csv.gz'', File (Packed Gzip (Raw ''1,2,3''))),
             (''values.csv.gz.decomp'', File (Raw ''1,2'')),
             (''data'', Dir)]) =
     (Inr ''values.csv.gz.decomp'',
      store [(''values.csv.gz'', File (Packed Gzip (Raw ''1,2,3''))),
             (''values.csv.gz.decomp'', File (Raw ''1,2'')),
             (''data'', Dir)]) \<and>
   fst (Decompress_call (Decompress ''auto'') ''data/values.csv.gz'' ''fetch''
     (store [(''data'', Dir), (''data/values.csv.gz'', File (Packed Gzip (Raw ''1,2,3'')))])) =
     Inr ''data/values.csv.gz.decomp'' \<and>
   lookup (snd (Decompress_call (Decompress ''auto'') ''data/values.csv.gz'' ''fetch''
     (store [(''data'', Dir), (''data/values.csv.gz'', File (Packed Gzip (Raw ''1,2,3'')))])))
     ''data/values.csv.gz.decomp'' = Some (File (Raw ''1,2,3''))"
  using Decompress_call_policy [of "Decompress ''auto''" "''values.csv.gz''" "''fetch''"
      "store [(''values.csv.gz'', File (Packed Gzip (Raw ''1,2,3''))),
             (''values.csv.gz.decomp'', File (Raw ''1,2'')),
             (''data'', Dir)]" Gzip "Raw []"]
    Decompress_call_policy [of "Decompress ''auto''" "''data/values.csv.gz''" "''fetch''"
      "store [(''data'', Dir), (''data/values.csv.gz'', File (Packed Gzip (Raw ''1,2,3'')))]"
      Gzip "Raw ''1,2,3''"]
    compression_module_auto_gz [of "''data/values.csv.gz''"]
  by (simp add: eval_defs splitext_def)

text \<open>
  C6, as stated: when \<open>Decompress\<close> decompresses, the output path is opened for exclusive
  writing, so that the open fails when the file exists. It does not: the mode is \<open>"w+b"\<close>.
  Here the output exists, the action is \<open>download\<close>, and the call succeeds and replaces what
  the output held.
\<close>

theorem Decompress_open_exclusive_counterexample:
  "path_exists (store [(''values.csv.gz'', File (Packed Gzip (Raw ''1,2,3''))),
                       (''values.csv.gz.decomp'', File (Raw ''0,0'')) ]) ''values.csv.gz.decomp'' \<and>
   Decompress_call (Decompress ''auto'') ''values.csv.gz'' ''download''
     (store [(''values.csv.gz'', File (Packed Gzip (Raw ''1,2,3''))),
             (''values.csv.gz.decomp'', File (Raw ''0,0''))]) =
   (Inr ''values.csv.gz.decomp'',
    \<lparr>fs = [(''values.csv.gz'', File (Packed Gzip (Raw ''1,2,3''))),
            (''values.csv.gz.decomp'', File (Raw ''1,2,3''))],
     warnings = [decompressing_message ''values.csv.gz'' ''values.csv.gz.decomp'' ''auto''],
     handles = [], unpack_log = []\<rparr>)"
proof -
  let ?w = "store [(''values.csv.gz'', File (Packed Gzip (Raw ''1,2,3''))),
                   (''values.csv.gz.decomp'', File (Raw ''0,0''))]"
  have m: "compression_module (Decompress ''auto'') ''values.csv.gz'' = Inr Gzip"
    by (rule compression_module_auto_gz) (simp add: splitext_def rfind_def)
  have "Decompress_call (Decompress ''auto'') ''values.csv.gz'' ''download'' ?w =
     (Inr (''values.csv.gz'' @ ''.decomp''),
      put (''values.csv.gz'' @ ''.decomp'') (File (Raw ''1,2,3''))
        (?w\<lparr>warnings := warnings ?w @
           [decompressing_message ''values.csv.gz'' (''values.csv.gz'' @ ''.decomp'')
              (method' (Decompress ''auto''))]\<rparr>))"
    by (rule Decompress_call_success [OF _ m]) (simp_all add: eval_defs)
  then show ?thesis
    by (simp add: put_def store_def Decompress_def path_exists_def lookup_def)
qed

text \<open>
  C6, amended. When \<open>Decompress\<close> decompresses (the action is \<open>download\<close> or \<open>update\<close>, or the
  output is missing), the output path is opened for writing with truncation and never
  refused because the file exists: it is created when missing and emptied when there. With
  an input that is a stream of the resolved module the call returns and the output holds the
  whole decompressed content, whatever it held before; with a missing input the call fails
  with \<open>FileNotFoundError\<close> after the output has been created or truncated, which is left
  empty. The copy is buffered: a stream of bytes is written by \<open>copyfileobj\<close> chunk after chunk,
  no chunk empty or longer than the buffer, and the chunks together are the whole stream.
\<close>

theorem Decompress_open_truncates:
  assumes "action = ''download'' \<or> action = ''update'' \<or>
           \<not> path_exists w (fname @ ''.decomp'')"
    and "compression_module self fname = Inr md"
    and "folder_exists w fname"
    and "\<not> isdir w (fname @ ''.decomp'')"
  shows "(lookup w fname = Some (File (Packed md c)) \<longrightarrow>
           fst (Decompress_call self fname action w) = Inr (fname @ ''.decomp'') \<and>
           lookup (snd (Decompress_call self fname action w)) (fname @ ''.decomp'') =
             Some (File c)) \<and>
         (lookup w fname = None \<longrightarrow>
           fst (Decompress_call self fname action w) = Inl (FileNotFoundError fname) \<and>
           lookup (snd (Decompress_call self fname action w)) (fname @ ''.decomp'') =
             Some (File (Raw []))) \<and>
         copyfileobj (Inr (Raw s)) (fname @ ''.decomp'') =
           for_each (file_append (fname @ ''.decomp'')) (read_chunks COPY_BUFSIZE s) \<and>
         concat (read_chunks COPY_BUFSIZE s) = s \<and>
         (\<forall>buf\<in>set (read_chunks COPY_BUFSIZE s). buf \<noteq> [] \<and> length buf \<le> COPY_BUFSIZE)"
proof -
  have r: "refresh w action (fname @ ''.decomp'')"
    using assms(1) by (auto simp: refresh_def)
  have "copyfileobj (Inr (Raw s)) (fname @ ''.decomp'') =
           for_each (file_append (fname @ ''.decomp'')) (read_chunks COPY_BUFSIZE s)"
    by (simp add: copyfileobj_def)
  moreover have "concat (read_chunks COPY_BUFSIZE s) = s"
    by (rule read_chunks_concat) (simp add: COPY_BUFSIZE_def)
  moreover have "\<forall>buf\<in>set (read_chunks COPY_BUFSIZE s). buf \<noteq> [] \<and> length buf \<le> COPY_BUFSIZE"
    using read_chunks_bounded by blast
  ultimately show ?thesis
    using Decompress_call_success [OF r assms(2) assms(3) assms(4)]
      Decompress_call_missing [OF r assms(2) assms(3) assms(4)]
    by (simp add: lookup_put)
qed

theorem Decompress_open_truncates_witness:
  "fst (Decompress_call (Decompress ''gzip'') ''values.csv.gz'' ''update''
     (store [(''values.csv.gz'', File (Packed Gzip (Raw ''1,2,3''))),
             (''values.csv.gz.decomp'', File (Raw ''0,0''))])) = Inr ''values.csv.gz.decomp'' \<and>
   lookup (snd (Decompress_call (Decompress ''gzip'') ''values.csv.gz'' ''update''
     (store [(''values.csv.gz'', File (Packed Gzip (Raw ''1,2,3''))),
             (''values.csv.gz.decomp'', File (Raw ''0,0''))]))) ''values.csv.gz.decomp'' =
     Some (File (Raw ''1,2,3'')) \<and>
   fst (Decompress_call (Decompress ''gzip'') ''values.csv.gz'' ''fetch''
     (store [(''values.csv.gz'', File (Packed Gzip (Raw ''1,2,3'')))])) =
     Inr ''values.csv.gz.decomp'' \<and>
   lookup (snd (Decompress_call (Decompress ''gzip'') ''values.csv.gz'' ''fetch''
     (store [(''values.csv.gz'', File (Packed Gzip (Raw ''1,2,3'')))]))) ''values.csv.gz.decomp'' =
     Some (File (Raw ''1,2,3'')) \<and>
   fst (Decompress_call (Decompress ''gzip'') ''gone.gz'' ''update''
     (store [(''gone.gz.decomp'', File (Raw ''0,0''))])) = Inl (FileNotFoundError ''gone.gz'') \<and>
   lookup (snd (Decompress_call (Decompress ''gzip'') ''gone.gz'' ''update''
     (store [(''gone.gz.decomp'', File (Raw ''0,0''))]))) ''gone.gz.decomp'' =
     Some (File (Raw [])) \<and>
   concat (read_chunks COPY_BUFSIZE ''1,2,3'') = ''1,2,3''"
proof -
  let ?wa = "store [(''values.csv.gz'', File (Packed Gzip (Raw ''1,2,3''))),
                    (''values.csv.gz.decomp'', File (Raw ''0,0''))]"
  let ?wb = "store [(''values.csv.gz'', File (Packed Gzip (Raw ''1,2,3'')))]"
  let ?wc = "store [(''gone.gz.decomp'', File (Raw ''0,0''))]"
  have m: "compression_module (Decompress ''gzip'') f = Inr Gzip" for f
    by (rule compression_module_gzip)
  have a: "lookup ?wa ''values.csv.gz'' = Some (File (Packed Gzip (Raw ''1,2,3'')))"
    and b: "lookup ?wb ''values.csv.gz'' = Some (File (Packed Gzip (Raw ''1,2,3'')))"
    and c: "lookup ?wc ''gone.gz'' = None"
    by (simp_all add: eval_defs)
  have ta: "fst (Decompress_call (Decompress ''gzip'') ''values.csv.gz'' ''update'' ?wa) =
              Inr (''values.csv.gz'' @ ''.decomp'') \<and>
            lookup (snd (Decompress_call (Decompress ''gzip'') ''values.csv.gz'' ''update'' ?wa))
              (''values.csv.gz'' @ ''.decomp'') = Some (File (Raw ''1,2,3''))"
    using Decompress_open_truncates [OF _ m, where w = ?wa and action = "''update''"
        and c = "Raw ''1,2,3''" and s = "''1,2,3''" and fname = "''values.csv.gz''"] a
    by (simp add: eval_defs)
  have tb: "fst (Decompress_call (Decompress ''gzip'') ''values.csv.gz'' ''fetch'' ?wb) =
              Inr (''values.csv.gz'' @ ''.decomp'') \<and>
            lookup (snd (Decompress_call (Decompress ''gzip'') ''values.csv.gz'' ''fetch'' ?wb))
              (''values.csv.gz'' @ ''.decomp'') = Some (File (Raw ''1,2,3''))"
    using Decompress_open_truncates [OF _ m, where w = ?wb and action = "''fetch''"
        and c = "Raw ''1,2,3''" and s = "''1,2,3''" and fname = "''values.csv.gz''"] b
    by (simp add: eval_defs)
  have tc: "fst (Decompress_call (Decompress ''gzip'') ''gone.gz'' ''update'' ?wc) =
              Inl (FileNotFoundError ''gone.gz'') \<and>
            lookup (snd (Decompress_call (Decompress ''gzip'') ''gone.gz'' ''update'' ?wc))
              (''gone.gz'' @ ''.decomp'') = Some (File (Raw [])) \<and>
            concat (read_chunks COPY_BUFSIZE ''1,2,3'') = ''1,2,3''"
    using Decompress_open_truncates [OF _ m, where w = ?wc and action = "''update''"
        and c = "Raw []" and s = "''1,2,3''" and fname = "''gone.gz''"] c
    by (simp add: eval_defs)
  from ta tb tc show ?thesis
    by simp
qed

text \<open>
  C10. The constructor of \<open>Decompress\<close> stores any method name and checks nothing. With the
  action \<open>fetch\<close> and the output there, the call returns the output path and leaves the world
  as it is, whatever the method. For a method that is neither \<open>auto\<close> nor a valid name, the
  call fails with the invalid-method \<open>ValueError\<close> exactly when it has to decompress (the
  action is \<open>download\<close> or \<open>update\<close>, or the output is missing), and the file system is
  untouched either way.
\<close>

theorem Decompress_method_checked_late:
  "method' (Decompress m) = m \<and>
   (action = ''fetch'' \<and> path_exists w (fname @ ''.decomp'') \<longrightarrow>
      Decompress_call (Decompress m) fname action w = (Inr (fname @ ''.decomp''), w)) \<and>
   (m \<noteq> ''auto'' \<and> m \<notin> set [''lzma'', ''xz'', ''gzip'', ''bzip2''] \<longrightarrow>
      (fst (Decompress_call (Decompress m) fname action w) = Inl (ValueError (invalid_method m)))
        = refresh w action (fname @ ''.decomp'') \<and>
      fs (snd (Decompress_call (Decompress m) fname action w)) = fs w)"
proof (intro conjI impI)
  show "method' (Decompress m) = m"
    by (simp add: Decompress_def)
next
  assume "action = ''fetch'' \<and> path_exists w (fname @ ''.decomp'')"
  then have "\<not> refresh w action (fname @ ''.decomp'')"
    by (simp add: refresh_def)
  then show "Decompress_call (Decompress m) fname action w = (Inr (fname @ ''.decomp''), w)"
    by (rule Decompress_call_skip)
next
  assume m: "m \<noteq> ''auto'' \<and> m \<notin> set [''lzma'', ''xz'', ''gzip'', ''bzip2'']"
  then have e: "compression_module (Decompress m) fname = Inl (ValueError (invalid_method m))"
    by (simp add: compression_module_def Decompress_def modules_def)
  show "(fst (Decompress_call (Decompress m) fname action w) = Inl (ValueError (invalid_method m)))
        = refresh w action (fname @ ''.decomp'')"
    using Decompress_call_invalid [OF _ e, of w action] Decompress_call_skip [of w action fname]
    by (cases "refresh w action (fname @ ''.decomp'')") simp_all
  show "fs (snd (Decompress_call (Decompress m) fname action w)) = fs w"
    using Decompress_call_invalid [OF _ e, of w action] Decompress_call_skip [of w action fname]
    by (cases "refresh w action (fname @ ''.decomp'')") simp_all
qed

theorem Decompress_method_checked_late_witness:
  "Decompress_call (Decompress ''zip'') ''values.csv.gz'' ''fetch''
     (store [(''values.csv.gz'', File (Packed Gzip (Raw ''1,2,3''))),
             (''values.csv.gz.decomp'', File (Raw ''1,2,3''))]) =
   (Inr ''values.csv.gz.decomp'',
    store [(''values.csv.gz'', File (Packed Gzip (Raw ''1,2,3''))),
           (''values.csv.gz.decomp'', File (Raw ''1,2,3''))]) \<and>
   fst (Decompress_call (Decompress ''zip'') ''values.csv.gz'' ''download''
     (store [(''values.csv.gz'', File (Packed Gzip (Raw ''1,2,3''))),
             (''values.csv.gz.decomp'', File (Raw ''1,2,3''))])) =
   Inl (ValueError (invalid_method ''zip'')) \<and>
   fst (Decompress_call (Decompress ''zip'') ''values.csv.gz'' ''fetch''
     (store [(''values.csv.gz'', File (Packed Gzip (Raw ''1,2,3'')))])) =
   Inl (ValueError (invalid_method ''zip''))"
  using Decompress_method_checked_late [of "''zip''" "''fetch''"
      "store [(''values.csv.gz'', File (Packed Gzip (Raw ''1,2,3''))),
             (''values.csv.gz.decomp'', File (Raw ''1,2,3''))]" "''values.csv.gz''"]
    Decompress_method_checked_late [of "''zip''" "''download''"
      "store [(''values.csv.gz'', File (Packed Gzip (Raw ''1,2,3''))),
             (''values.csv.gz.decomp'', File (Raw ''1,2,3''))]" "''values.csv.gz''"]
    Decompress_method_checked_late [of "''zip''" "''fetch''"
      "store [(''values.csv.gz'', File (Packed Gzip (Raw ''1,2,3'')))]" "''values.csv.gz''"]
  by (simp add: eval_defs)

subsection \<open>The call of an extractor\<close>

text \<open>
  C7. A call of an extractor whose class defines no suffix fails at once with the
  \<open>NotImplementedError\<close> that names the attribute, whatever the arguments, and the world is
  what it was: no path has been looked up, made or written, and nothing is tried again.
\<close>

theorem missing_suffix_fails:
  "suffix self = None \<Longrightarrow>
   ExtractorProcessor_call self fname action w = (Inl (NotImplementedError suffix_missing), w)"
  by (simp add: ExtractorProcessor_call_def)

theorem missing_suffix_fails_witness:
  "ExtractorProcessor_call (ExtractorProcessor (Some [''a.txt''])) ''data.zip'' ''download''
     (store [(''data.zip'', File (ZipArchive [(''a.txt'', Regular (Raw ''A''))]))]) =
   (Inl (NotImplementedError ''Derived classes must define the 'suffix' attribute.''),
    store [(''data.zip'', File (ZipArchive [(''a.txt'', Regular (Raw ''A''))]))])"
  using missing_suffix_fails [of "ExtractorProcessor (Some [''a.txt''])" "''data.zip''" "''download''"
      "store [(''data.zip'', File (ZipArchive [(''a.txt'', Regular (Raw ''A''))]))]"]
  by (simp add: ExtractorProcessor_def suffix_missing_def quoted_def sq_def)

lemma ExtractorProcessor_call_skip:
  "suffix self = Some sfx \<Longrightarrow> \<not> refresh w action (fname @ sfx) \<Longrightarrow>
   ExtractorProcessor_call self fname action w = (Inr (walk_files w (fname @ sfx)), w)"
  by (simp add: ExtractorProcessor_call_def)

text \<open>
  C2. When the output directory of an archive is there, two calls in a row with the action
  \<open>fetch\<close> return the same list, the files below that directory, and neither changes the
  world: nothing is unpacked and the directory holds what it held.
\<close>

theorem fetch_twice_idempotent:
  assumes "suffix self = Some sfx" and "path_exists w (fname @ sfx)"
  shows "(case ExtractorProcessor_call self fname ''fetch'' w of
            (r1, w1) \<Rightarrow>
              (case ExtractorProcessor_call self fname ''fetch'' w1 of
                 (r2, w2) \<Rightarrow>
                   r1 = Inr (walk_files w (fname @ sfx)) \<and> r2 = r1 \<and> w1 = w \<and> w2 = w1))"
proof -
  have "\<not> refresh w ''fetch'' (fname @ sfx)"
    using assms(2) by (simp add: refresh_def)
  then show ?thesis
    using assms(1) by (simp add: ExtractorProcessor_call_skip)
qed

theorem fetch_twice_idempotent_witness:
  "(case ExtractorProcessor_call (Unzip None) ''data.zip'' ''fetch''
           (store [(''data.zip'', File (ZipArchive [(''x.csv'', Regular (Raw ''1,2''))])),
                   (''data.zip.unzip'', Dir),
                   (''data.zip.unzip/x.csv'', File (Raw ''1,2''))]) of
      (r1, w1) \<Rightarrow>
        (case ExtractorProcessor_call (Unzip None) ''data.zip'' ''fetch'' w1 of
           (r2, w2) \<Rightarrow>
             r1 = Inr [''data.zip.unzip/x.csv''] \<and> r2 = r1 \<and> unpack_log w2 = [] \<and>
             fs w2 = [(''data.zip'', File (ZipArchive [(''x.csv'', Regular (Raw ''1,2''))])),
                   (''data.zip.unzip'', Dir),
                   (''data.zip.unzip/x.csv'', File (Raw ''1,2''))]))"
  using fetch_twice_idempotent [of "Unzip None" "''.unzip''"
      "store [(''data.zip'', File (ZipArchive [(''x.csv'', Regular (Raw ''1,2''))])),
                   (''data.zip.unzip'', Dir),
                   (''data.zip.unzip/x.csv'', File (Raw ''1,2''))]" "''data.zip''"]
  by (simp add: Unzip_def walk_defs eval_defs split: prod.splits)

subsection \<open>Extraction keeps paths, closes its handles and logs nothing\<close>

lemma steady_refl: "steady w w"
  by (simp add: steady_def)

lemma steady_trans: "steady w w1 \<Longrightarrow> steady w1 w2 \<Longrightarrow> steady w w2"
  by (auto simp: steady_def)

lemma steady_put: "steady w (put p n w)"
  by (auto simp: steady_def put_def dom_update)

lemma steady_warnings: "steady w (w\<lparr>warnings := ws\<rparr>)"
  by (simp add: steady_def)

lemma keepsD: "keeps m \<Longrightarrow> m w = (r, w') \<Longrightarrow> steady w w'"
  by (metis keeps_def snd_conv)

lemma keeps_return: "keeps (return x)"
  by (simp add: keeps_def return_def steady_refl)

lemma keeps_raise: "keeps (raise e)"
  by (simp add: keeps_def raise_def steady_refl)

lemma keeps_warn: "keeps (warn msg)"
  by (simp add: keeps_def warn_def steady_warnings)

lemma keeps_bind:
  assumes "keeps m" and "\<And>x. keeps (f x)"
  shows "keeps (bind m f)"
  unfolding keeps_def
proof
  fix w
  obtain r w1 where m: "m w = (r, w1)"
    by (cases "m w")
  then have s: "steady w w1"
    using assms(1) by (rule keepsD [rotated])
  show "steady w (snd (bind m f w))"
  proof (cases r)
    case (Inl e)
    with m s show ?thesis
      by (simp add: bind_def)
  next
    case (Inr x)
    obtain r2 w2 where f: "f x w1 = (r2, w2)"
      by (cases "f x w1")
    then have "steady w1 w2"
      using assms(2) by (rule keepsD [rotated])
    with s m Inr f show ?thesis
      by (simp add: bind_def steady_trans [of w w1 w2])
  qed
qed

lemma keeps_for_each:
  assumes "\<And>x. keeps (f x)"
  shows "keeps (for_each f xs)"
  unfolding keeps_def
proof
  fix w
  show "steady w (snd (for_each f xs w))"
  proof (induction xs arbitrary: w)
    case Nil
    show ?case
      by (simp add: steady_refl)
  next
    case (Cons x xs)
    obtain r w1 where m: "f x w = (r, w1)"
      by (cases "f x w")
    then have s: "steady w w1"
      using assms by (rule keepsD [rotated])
    show ?case
    proof (cases r)
      case (Inl e)
      with m s show ?thesis
        by simp
    next
      case (Inr u)
      with m s Cons.IH [of w1] show ?thesis
        by (simp add: steady_trans [of w w1])
    qed
  qed
qed

lemma keeps_with_resource:
  assumes "keeps acquire" and "\<And>x. keeps (body x)"
  shows "keeps (with_resource acquire body)"
  unfolding keeps_def
proof
  fix w
  obtain r w1 where a: "acquire w = (r, w1)"
    by (cases "acquire w")
  then have s: "steady w w1"
    using assms(1) by (rule keepsD [rotated])
  show "steady w (snd (with_resource acquire body w))"
  proof (cases r)
    case (Inl e)
    with a s show ?thesis
      by (simp add: with_resource_def)
  next
    case (Inr hx)
    obtain h x where hx: "hx = (h, x)"
      by (cases hx)
    obtain r2 w2 where b: "body x (w1\<lparr>handles := h # handles w1\<rparr>) = (r2, w2)"
      by (cases "body x (w1\<lparr>handles := h # handles w1\<rparr>)")
    then have "steady (w1\<lparr>handles := h # handles w1\<rparr>) w2"
      using assms(2) by (rule keepsD [rotated])
    then have "steady w1 (w2\<lparr>handles := remove1 h (handles w2)\<rparr>)"
      by (simp add: steady_def)
    with s a Inr hx b show ?thesis
      by (simp add: with_resource_def steady_trans [of w w1])
  qed
qed

lemma keeps_mkdir: "keeps (mkdir p)"
  by (simp add: keeps_def mkdir_def steady_refl steady_put split: option.splits)

lemma keeps_makedirs: "keeps (makedirs name)"
  unfolding keeps_def
proof
  fix w
  show "steady w (snd (makedirs name w))"
  proof (induction name w rule: makedirs.induct)
    case (1 name w)
    show ?case
    proof (cases "fst (makedirs_parts name) \<noteq> [] \<and> snd (makedirs_parts name) \<noteq> [] \<and>
         \<not> path_exists w (fst (makedirs_parts name))")
      case False
      then have "makedirs name w = mkdir name w"
        by (subst makedirs.simps) (simp only: if_False)
      then show ?thesis
        using keeps_mkdir [of name] by (simp add: keeps_def)
    next
      case True
      obtain r w1 where m: "makedirs (fst (makedirs_parts name)) w = (r, w1)"
        by (cases "makedirs (fst (makedirs_parts name)) w")
      have s: "steady w w1"
        using "1.IH" True m by simp
      have k: "steady w1 (snd (mkdir name w1))"
        using keeps_mkdir [of name] by (simp add: keeps_def)
      have "steady w1 (snd (makedirs name w))"
        using True m k
        by (subst makedirs.simps) (auto simp: steady_refl split: sum.splits error.splits)
      with s show ?thesis
        by (rule steady_trans)
    qed
  qed
qed

lemma keeps_open_write: "keeps (open_write p)"
  by (simp add: keeps_def open_write_def steady_refl steady_put split: option.splits)

lemma keeps_file_write: "keeps (file_write p c)"
  by (simp add: keeps_def file_write_def steady_put)

lemma keeps_ZipFile: "keeps (ZipFile fname)"
  by (simp add: keeps_def ZipFile_def steady_refl split: option.splits node.splits content.splits)

lemma keeps_TarFile_open: "keeps (TarFile_open fname)"
  by (simp add: keeps_def TarFile_open_def steady_refl split: option.splits node.splits content.splits)

lemma keeps_zip_open: "keeps (zip_open fname es name)"
  by (simp add: keeps_def zip_open_def steady_refl split: option.splits member.splits)

lemma keeps_make_upperdirs: "keeps (make_upperdirs p)"
  using keeps_makedirs [of "dirname p"] by (simp add: keeps_def make_upperdirs_def steady_refl)

lemma keeps_unless_isdir: "keeps (\<lambda>w. if isdir w t then (Inr (), w) else mkdir t w)"
  using keeps_mkdir [of t] by (simp add: keeps_def steady_refl)

lemma keeps_mkdir_exists:
  "keeps (\<lambda>w. case mkdir t w of (Inl (FileExistsError p), w') \<Rightarrow> (Inr (), w') | r \<Rightarrow> r)"
  unfolding keeps_def
proof
  fix w
  obtain r w' where m: "mkdir t w = (r, w')"
    by (cases "mkdir t w")
  then have "steady w w'"
    using keeps_mkdir by (rule keepsD [rotated])
  moreover have "snd (case mkdir t w of (Inl (FileExistsError p), w') \<Rightarrow> (Inr (), w') | r \<Rightarrow> r) = w'"
    by (simp add: m split: sum.splits error.splits)
  ultimately show "steady w
     (snd (case mkdir t w of (Inl (FileExistsError p), w') \<Rightarrow> (Inr (), w') | r \<Rightarrow> r))"
    by simp
qed

lemma keeps_zip_extract_member: "keeps (zip_extract_member dir e)"
  unfolding zip_extract_member_def Let_def
proof (rule keeps_bind [OF keeps_make_upperdirs])
  fix u :: unit
  let ?t = "if zip_arcname (fst e) = [] then dir else path_join dir (zip_arcname (fst e))"
  show "keeps (case snd e of
          Directory \<Rightarrow> (\<lambda>w. if isdir w ?t then (Inr (), w) else mkdir ?t w)
        | Regular c \<Rightarrow> with_resource (open_write ?t) (\<lambda>target. file_write target c))"
  proof (cases "snd e")
    case Directory
    show ?thesis
      by (simp only: Directory member.case keeps_unless_isdir)
  next
    case (Regular c)
    then show ?thesis
      by (simp add: keeps_with_resource keeps_open_write keeps_file_write)
  qed
qed

lemma keeps_tar_extract_member: "keeps (tar_extract_member dir e)"
  unfolding tar_extract_member_def Let_def
proof (rule keeps_bind [OF keeps_make_upperdirs])
  fix u :: unit
  let ?t = "rstrip_sep (path_join dir (fst e))"
  show "keeps (case snd e of
          Directory \<Rightarrow>
            (\<lambda>w. case mkdir ?t w of
                   (Inl (FileExistsError p), w') \<Rightarrow> (Inr (), w')
                 | r \<Rightarrow> r)
        | Regular c \<Rightarrow> with_resource (open_write ?t) (\<lambda>target. file_write target c))"
  proof (cases "snd e")
    case Directory
    show ?thesis
      by (simp only: Directory member.case keeps_mkdir_exists)
  next
    case (Regular c)
    then show ?thesis
      by (simp add: keeps_with_resource keeps_open_write keeps_file_write)
  qed
qed

lemma keeps_Unzip_member: "keeps (Unzip_member fname zip_file extract_dir member)"
  unfolding Unzip_member_def
  by (intro keeps_bind keeps_warn keeps_with_resource keeps_zip_open keeps_open_write
      keeps_file_write)

lemma keeps_Unzip_extract_file: "keeps (Unzip_extract_file ms fname extract_dir)"
  unfolding Unzip_extract_file_def
  by (rule keeps_with_resource [OF keeps_ZipFile])
    (auto simp: zip_extractall_def split: option.splits
      intro!: keeps_bind keeps_warn keeps_for_each keeps_zip_extract_member keeps_Unzip_member)

lemma keeps_stream_read: "keeps (stream_read data_file)"
  by (simp add: keeps_def stream_read_def steady_refl split: option.splits)

text \<open>The write of one member, between the opening of its stream and the closing.\<close>

lemma keeps_member_write:
  "keeps (with_resource (open_write p) (\<lambda>output.
            bind (stream_read data_file) (\<lambda>data. file_write output data)))"
  by (intro keeps_with_resource keeps_open_write keeps_bind keeps_stream_read keeps_file_write)

lemma try_finally_closes:
  assumes "keeps body"
  shows "steady w (snd (try_finally body (stream_close (Some (h, c))) (w\<lparr>handles := h # handles w\<rparr>)))"
proof -
  obtain r w1 where b: "body (w\<lparr>handles := h # handles w\<rparr>) = (r, w1)"
    by (cases "body (w\<lparr>handles := h # handles w\<rparr>)")
  then have "steady (w\<lparr>handles := h # handles w\<rparr>) w1"
    using assms by (rule keepsD [rotated])
  then have "steady w (w1\<lparr>handles := remove1 h (handles w1)\<rparr>)"
    by (simp add: steady_def)
  then show ?thesis
    by (simp add: try_finally_def b stream_close_def)
qed

lemma try_finally_none:
  assumes "keeps body"
  shows "steady w (snd (try_finally body (stream_close None) w))"
proof -
  obtain r w1 where b: "body w = (r, w1)"
    by (cases "body w")
  then have "steady w w1"
    using assms by (rule keepsD [rotated])
  then show ?thesis
    by (simp add: try_finally_def b stream_close_def)
qed

lemma keeps_Untar_member: "keeps (Untar_member fname tar_file extract_dir member)"
  unfolding keeps_def
proof
  fix w :: world
  let ?w1 = "w\<lparr>warnings := warnings w @ [extracting_message member fname extract_dir]\<rparr>"
  have s: "steady w ?w1"
    by (rule steady_warnings)
  let ?body = "\<lambda>data_file. with_resource (open_write (path_join extract_dir member)) (\<lambda>output.
              bind (stream_read data_file) (\<lambda>data. file_write output data))"
  have "steady ?w1 (snd (Untar_member fname tar_file extract_dir member w))"
  proof (cases "getmember tar_file member")
    case None
    then show ?thesis
      by (simp add: Untar_member_def bind_def warn_def extractfile_def steady_refl)
  next
    case (Some m)
    show ?thesis
    proof (cases m)
      case Directory
      with Some show ?thesis
        using try_finally_none [OF keeps_member_write [of "path_join extract_dir member" None],
            where w = ?w1]
        by (simp add: Untar_member_def bind_def warn_def extractfile_def)
    next
      case (Regular c)
      with Some show ?thesis
        using try_finally_closes [OF keeps_member_write [of "path_join extract_dir member"
              "Some (MemberStream fname member, c)"],
            where w = ?w1 and h = "MemberStream fname member" and c = c]
        by (simp add: Untar_member_def bind_def warn_def extractfile_def)
    qed
  qed
  with s show "steady w (snd (Untar_member fname tar_file extract_dir member w))"
    by (rule steady_trans)
qed

lemma keeps_Untar_extract_file: "keeps (Untar_extract_file ms fname extract_dir)"
  unfolding Untar_extract_file_def
  by (rule keeps_with_resource [OF keeps_TarFile_open])
    (auto simp: tar_extractall_def split: option.splits
      intro!: keeps_bind keeps_warn keeps_for_each keeps_tar_extract_member keeps_Untar_member)

text \<open>
  C8. In the extraction of named members from a tar archive, the step for one member leaves
  open exactly the handles that were open before it, on every exit, and so does the whole
  loop; the next member is only taken up from the world that step returned. For a member
  that is a file the stream is open once \<open>extractfile\<close> has returned, and when the output
  file cannot be opened the step fails with that error: the stream has been closed all the
  same.
\<close>

theorem untar_stream_closed:
  "handles (snd (Untar_member fname tar_file extract_dir member w)) = handles w \<and>
   handles (snd (Untar_extract_file (Some names) fname extract_dir w)) = handles w \<and>
   (case Untar_member fname tar_file extract_dir member w of
      (r, w') \<Rightarrow>
        for_each (Untar_member fname tar_file extract_dir) (member # rest) w =
          (case r of
             Inl e \<Rightarrow> (Inl e, w')
           | Inr u \<Rightarrow> for_each (Untar_member fname tar_file extract_dir) rest w')) \<and>
   (getmember tar_file member = Some (Regular c) \<longrightarrow>
      handles (snd (extractfile fname tar_file member w)) =
        MemberStream fname member # handles w \<and>
      (folder_error w (path_join extract_dir member) = Some e \<and>
       \<not> isdir w (path_join extract_dir member) \<longrightarrow>
         fst (Untar_member fname tar_file extract_dir member w) = Inl e))"
proof (intro conjI impI)
  show "handles (snd (Untar_member fname tar_file extract_dir member w)) = handles w"
    using keeps_Untar_member [of fname tar_file extract_dir member]
    by (simp add: keeps_def steady_def)
  show "handles (snd (Untar_extract_file (Some names) fname extract_dir w)) = handles w"
    using keeps_Untar_extract_file [of "Some names" fname extract_dir]
    by (simp add: keeps_def steady_def)
  show "case Untar_member fname tar_file extract_dir member w of
      (r, w') \<Rightarrow>
        for_each (Untar_member fname tar_file extract_dir) (member # rest) w =
          (case r of
             Inl e \<Rightarrow> (Inl e, w')
           | Inr u \<Rightarrow> for_each (Untar_member fname tar_file extract_dir) rest w')"
    by (simp split: prod.splits sum.splits)
next
  assume "getmember tar_file member = Some (Regular c)"
  then show "handles (snd (extractfile fname tar_file member w)) =
        MemberStream fname member # handles w"
    by (simp add: extractfile_def)
next
  assume g: "getmember tar_file member = Some (Regular c)"
    and f: "folder_error w (path_join extract_dir member) = Some e \<and>
       \<not> isdir w (path_join extract_dir member)"
  have "folder_error (w\<lparr>warnings := ws, handles := hs\<rparr>) p = folder_error w p" for ws hs p
    by (simp add: folder_error_def world_fields lookup_fields)
  with g f show "fst (Untar_member fname tar_file extract_dir member w) = Inl e"
    by (simp add: Untar_member_def bind_def warn_def extractfile_def try_finally_def
        with_resource_def open_write_def stream_close_def world_fields)
qed

theorem untar_stream_closed_witness:
  "handles (snd (extractfile ''d.tar''
       [(''a.txt'', Regular (Raw ''A'')), (''sub/b.txt'', Regular (Raw ''B''))] ''sub/b.txt''
       (store [(''d.tar'', File (TarArchive
                  [(''a.txt'', Regular (Raw ''A'')), (''sub/b.txt'', Regular (Raw ''B''))])),
               (''d.tar.untar'', Dir)]))) = [MemberStream ''d.tar'' ''sub/b.txt''] \<and>
   fst (Untar_member ''d.tar''
       [(''a.txt'', Regular (Raw ''A'')), (''sub/b.txt'', Regular (Raw ''B''))]
       ''d.tar.untar'' ''sub/b.txt''
       (store [(''d.tar'', File (TarArchive
                  [(''a.txt'', Regular (Raw ''A'')), (''sub/b.txt'', Regular (Raw ''B''))])),
               (''d.tar.untar'', Dir)])) = Inl (FileNotFoundError ''d.tar.untar/sub/b.txt'') \<and>
   handles (snd (Untar_member ''d.tar''
       [(''a.txt'', Regular (Raw ''A'')), (''sub/b.txt'', Regular (Raw ''B''))]
       ''d.tar.untar'' ''sub/b.txt''
       (store [(''d.tar'', File (TarArchive
                  [(''a.txt'', Regular (Raw ''A'')), (''sub/b.txt'', Regular (Raw ''B''))])),
               (''d.tar.untar'', Dir)]))) = [] \<and>
   handles (snd (Untar_extract_file (Some [''sub/b.txt'', ''a.txt'']) ''d.tar'' ''d.tar.untar''
       (store [(''d.tar'', File (TarArchive
                  [(''a.txt'', Regular (Raw ''A'')), (''sub/b.txt'', Regular (Raw ''B''))])),
               (''d.tar.untar'', Dir)]))) = []"
  using untar_stream_closed [of "''d.tar''"
      "[(''a.txt'', Regular (Raw ''A'')), (''sub/b.txt'', Regular (Raw ''B''))]"
      "''d.tar.untar''" "''sub/b.txt''"
      "store [(''d.tar'', File (TarArchive
                  [(''a.txt'', Regular (Raw ''A'')), (''sub/b.txt'', Regular (Raw ''B''))])),
               (''d.tar.untar'', Dir)]"
      "[''sub/b.txt'', ''a.txt'']" "[''a.txt'']" "Raw ''B''"
      "FileNotFoundError ''d.tar.untar/sub/b.txt''"]
  by (simp add: getmember_def folder_error_def path_join_def eval_defs)

subsection \<open>The refresh policy of the extractors\<close>

lemma isdir_exists: "isdir w p \<Longrightarrow> path_exists w p"
  by (auto simp: isdir_def path_exists_def)

lemma path_exists_iff: "path_exists w p = (p = ''/'' \<or> p \<in> fst ` set (fs w))"
  by (simp add: path_exists_def lookup_def map_of_eq_None_iff)

lemma steady_path_exists: "steady w w' \<Longrightarrow> path_exists w p \<Longrightarrow> path_exists w' p"
  by (auto simp: steady_def path_exists_iff)

lemma path_exists_put: "path_exists (put p n w) q = (q = p \<or> path_exists w q)"
  by (auto simp: path_exists_def lookup_put)

lemma path_split_Nil: "path_split [] = ([], [])"
  by (simp add: path_split_def rfind_def)

lemma makedirs_fresh:
  assumes "\<not> path_exists w p" and "folder_exists w p" and "snd (path_split p) \<noteq> []"
  shows "makedirs p w = (Inr (), put p Dir w)"
proof -
  have parts: "makedirs_parts p = path_split p"
    using assms(3) by (simp add: makedirs_parts_def)
  have "fst (path_split p) = [] \<or> path_exists w (fst (path_split p))"
    using assms(2) by (auto simp: folder_exists_def dirname_def isdir_exists)
  then have "\<not> (fst (makedirs_parts p) \<noteq> [] \<and> snd (makedirs_parts p) \<noteq> [] \<and>
         \<not> path_exists w (fst (makedirs_parts p)))"
    by (auto simp: parts)
  then have "makedirs p w = mkdir p w"
    by (subst makedirs.simps) (simp only: if_False)
  moreover have "p \<noteq> []"
    using assms(3) by (auto simp: path_split_Nil)
  ultimately show ?thesis
    using assms(1,2) by (simp add: mkdir_def folder_error_def)
qed

lemma mkdir_creates: "mkdir p w = (Inr u, w') \<Longrightarrow> path_exists w' p"
  by (auto simp: mkdir_def path_exists_put split: if_splits option.splits)

lemma makedirs_creates:
  assumes "makedirs p w = (Inr u, w')" and "snd (makedirs_parts p) \<noteq> ''.''"
  shows "path_exists w' p"
proof (cases "fst (makedirs_parts p) \<noteq> [] \<and> snd (makedirs_parts p) \<noteq> [] \<and>
         \<not> path_exists w (fst (makedirs_parts p))")
  case False
  then have "makedirs p w = mkdir p w"
    by (subst makedirs.simps) (simp only: if_False)
  with assms(1) show ?thesis
    by (simp add: mkdir_creates)
next
  case True
  obtain r w1 where m: "makedirs (fst (makedirs_parts p)) w = (r, w1)"
    by (cases "makedirs (fst (makedirs_parts p)) w")
  have "makedirs p w = mkdir p w1 \<or> (\<exists>e. makedirs p w = (Inl e, w1))"
    using True m assms(2)
    by (subst (1 2) makedirs.simps) (auto split: sum.splits error.splits)
  with assms(1) show ?thesis
    by (auto simp: mkdir_creates)
qed

lemma snd_path_split_suffix:
  "CHR ''/'' \<notin> set sfx \<Longrightarrow> snd (path_split (fname @ sfx)) = snd (path_split fname) @ sfx"
  by (simp add: path_split_append)

text \<open>The call of an extractor that has to unpack, once the output directory is there.\<close>

lemma ExtractorProcessor_call_run:
  assumes "suffix self = Some sfx" and "refresh w action (fname @ sfx)"
    and "(if \<not> path_exists w (fname @ sfx) then makedirs (fname @ sfx) w else (Inr (), w)) =
           (Inr (), w1)"
  shows "ExtractorProcessor_call self fname action w =
     (case extract_file self (members self) fname (fname @ sfx)
             (w1\<lparr>unpack_log := unpack_log w1 @ [(fname, fname @ sfx)]\<rparr>) of
        (Inl e, w2) \<Rightarrow> (Inl e, w2)
      | (Inr u, w2) \<Rightarrow> (Inr (walk_files w2 (fname @ sfx)), w2))"
  using assms by (simp add: ExtractorProcessor_call_def Let_def)

lemma archive_suffix:
  assumes "self = Unzip ms \<or> self = Untar ms"
  shows "\<exists>sfx. suffix self = Some sfx \<and> CHR ''/'' \<notin> set sfx \<and> sfx \<noteq> [] \<and>
     (\<forall>t. t @ sfx \<noteq> ''.'') \<and> keeps (extract_file self (members self) fname dir)"
  using assms by (auto simp: Unzip_def Untar_def keeps_Unzip_extract_file keeps_Untar_extract_file)

lemma makedirs_head_exists:
  assumes "path_exists w (fst (makedirs_parts p))"
  shows "makedirs p w = mkdir p w"
proof -
  have "\<not> (fst (makedirs_parts p) \<noteq> [] \<and> snd (makedirs_parts p) \<noteq> [] \<and>
         \<not> path_exists w (fst (makedirs_parts p)))"
    using assms by simp
  then show ?thesis
    by (subst makedirs.simps) (simp only: if_False)
qed

lemma ExtractorProcessor_call_no_directory:
  assumes "suffix self = Some sfx" and "\<not> path_exists w (fname @ sfx)"
    and "makedirs (fname @ sfx) w = (Inl e, w1)"
  shows "ExtractorProcessor_call self fname action w = (Inl e, w1)"
  using assms by (simp add: ExtractorProcessor_call_def Let_def refresh_def)

text \<open>
  C1, as stated: the unpack step runs whenever the action is \<open>download\<close> or \<open>update\<close> or the
  output directory is missing. It does not when the directory is missing and cannot be made.
  Here \<open>f\<close> is a file, so \<open>os.makedirs\<close> raises for \<open>f/x.zip.unzip\<close>; the action is
  \<open>download\<close>, and the call ends with that error in an untouched world: the archive is
  never opened and nothing is unpacked.
\<close>

theorem unpack_needs_directory_counterexample:
  "\<not> path_exists (store [(''f'', File (Raw []))]) ''f/x.zip.unzip'' \<and>
   ExtractorProcessor_call (Unzip None) ''f/x.zip'' ''download'' (store [(''f'', File (Raw []))]) =
     (Inl (NotADirectoryError ''f/x.zip.unzip''), store [(''f'', File (Raw []))])"
proof -
  let ?w = "store [(''f'', File (Raw []))]"
  have parts: "makedirs_parts ''f/x.zip.unzip'' = (''f'', ''x.zip.unzip'')"
    by (simp add: makedirs_parts_def path_split_def rfind_def rstrip_sep_def Let_def)
  have "makedirs ''f/x.zip.unzip'' ?w = mkdir ''f/x.zip.unzip'' ?w"
    by (rule makedirs_head_exists) (simp add: parts eval_defs)
  also have "\<dots> = (Inl (NotADirectoryError ''f/x.zip.unzip''), ?w)"
    by (simp add: mkdir_def folder_error_def eval_defs)
  finally have mk: "makedirs (''f/x.zip'' @ ''.unzip'') ?w =
      (Inl (NotADirectoryError ''f/x.zip.unzip''), ?w)"
    by simp
  have ne: "\<not> path_exists ?w (''f/x.zip'' @ ''.unzip'')"
    by (simp add: eval_defs)
  have "ExtractorProcessor_call (Unzip None) ''f/x.zip'' ''download'' ?w =
      (Inl (NotADirectoryError ''f/x.zip.unzip''), ?w)"
    by (rule ExtractorProcessor_call_no_directory [OF _ ne mk]) (simp add: Unzip_def)
  with ne show ?thesis
    by simp
qed

text \<open>
  C1, amended. Take a call of an extractor whose class defines a suffix, and let the output
  directory be the path with the suffix appended. When the action is neither \<open>download\<close> nor
  \<open>update\<close> (so with \<open>fetch\<close>) and the directory exists, the unpack step does not run: the
  call returns the files below the directory and changes nothing at all. When the action is
  \<open>download\<close> or \<open>update\<close> and the directory exists, the call is the unpack step
  \<open>_extract_file\<close>, run on the archive and the directory, followed by the listing of the
  directory. When the directory does not exist it is made first, whatever the action: if
  \<open>os.makedirs\<close> raises, the call ends with its error and the unpack step does not run;
  otherwise the call is the unpack step and the listing, as before. For \<open>Unzip\<close> and
  \<open>Untar\<close> the directory is always made when the folder of the archive exists.
\<close>

theorem extractor_refresh_policy:
  assumes sfx: "suffix self = Some sfx"
  shows "(action \<noteq> ''download'' \<and> action \<noteq> ''update'' \<and> path_exists w (fname @ sfx) \<longrightarrow>
            ExtractorProcessor_call self fname action w =
              (Inr (walk_files w (fname @ sfx)), w)) \<and>
         ((action = ''download'' \<or> action = ''update'') \<and> path_exists w (fname @ sfx) \<longrightarrow>
            ExtractorProcessor_call self fname action w =
              (case extract_file self (members self) fname (fname @ sfx)
                      (w\<lparr>unpack_log := unpack_log w @ [(fname, fname @ sfx)]\<rparr>) of
                 (Inl e, w2) \<Rightarrow> (Inl e, w2)
               | (Inr u, w2) \<Rightarrow> (Inr (walk_files w2 (fname @ sfx)), w2))) \<and>
         (\<not> path_exists w (fname @ sfx) \<longrightarrow>
            (case makedirs (fname @ sfx) w of
               (Inl e, w1) \<Rightarrow> ExtractorProcessor_call self fname action w = (Inl e, w1)
             | (Inr u, w1) \<Rightarrow>
                 ExtractorProcessor_call self fname action w =
                   (case extract_file self (members self) fname (fname @ sfx)
                           (w1\<lparr>unpack_log := unpack_log w1 @ [(fname, fname @ sfx)]\<rparr>) of
                      (Inl e, w2) \<Rightarrow> (Inl e, w2)
                    | (Inr u', w2) \<Rightarrow> (Inr (walk_files w2 (fname @ sfx)), w2)))) \<and>
         ((self = Unzip ms \<or> self = Untar ms) \<and> folder_exists w fname \<and>
          \<not> path_exists w (fname @ sfx) \<longrightarrow>
            makedirs (fname @ sfx) w = (Inr (), put (fname @ sfx) Dir w))"
proof (intro conjI impI)
  assume "action \<noteq> ''download'' \<and> action \<noteq> ''update'' \<and> path_exists w (fname @ sfx)"
  then have "\<not> refresh w action (fname @ sfx)"
    by (simp add: refresh_def)
  then show "ExtractorProcessor_call self fname action w = (Inr (walk_files w (fname @ sfx)), w)"
    using sfx by (rule ExtractorProcessor_call_skip [rotated])
next
  assume a: "(action = ''download'' \<or> action = ''update'') \<and> path_exists w (fname @ sfx)"
  then have r: "refresh w action (fname @ sfx)"
    by (auto simp: refresh_def)
  have mk: "(if \<not> path_exists w (fname @ sfx) then makedirs (fname @ sfx) w else (Inr (), w)) =
      (Inr (), w)"
    using a by simp
  show "ExtractorProcessor_call self fname action w =
      (case extract_file self (members self) fname (fname @ sfx)
              (w\<lparr>unpack_log := unpack_log w @ [(fname, fname @ sfx)]\<rparr>) of
         (Inl e, w2) \<Rightarrow> (Inl e, w2)
       | (Inr u, w2) \<Rightarrow> (Inr (walk_files w2 (fname @ sfx)), w2))"
    by (rule ExtractorProcessor_call_run [OF sfx r mk])
next
  assume n: "\<not> path_exists w (fname @ sfx)"
  then have r: "refresh w action (fname @ sfx)"
    by (simp add: refresh_def)
  obtain rm w1 where m: "makedirs (fname @ sfx) w = (rm, w1)"
    by (cases "makedirs (fname @ sfx) w")
  show "case makedirs (fname @ sfx) w of
          (Inl e, w1) \<Rightarrow> ExtractorProcessor_call self fname action w = (Inl e, w1)
        | (Inr u, w1) \<Rightarrow>
            ExtractorProcessor_call self fname action w =
              (case extract_file self (members self) fname (fname @ sfx)
                      (w1\<lparr>unpack_log := unpack_log w1 @ [(fname, fname @ sfx)]\<rparr>) of
                 (Inl e, w2) \<Rightarrow> (Inl e, w2)
               | (Inr u', w2) \<Rightarrow> (Inr (walk_files w2 (fname @ sfx)), w2))"
  proof (cases rm)
    case (Inl e)
    then show ?thesis
      using ExtractorProcessor_call_no_directory [OF sfx n, of e w1 action] m by simp
  next
    case (Inr u)
    have mk: "(if \<not> path_exists w (fname @ sfx) then makedirs (fname @ sfx) w else (Inr (), w)) =
        (Inr (), w1)"
      using n m Inr by simp
    show ?thesis
      using ExtractorProcessor_call_run [OF sfx r mk] m Inr by simp
  qed
next
  assume a: "(self = Unzip ms \<or> self = Untar ms) \<and> folder_exists w fname \<and>
          \<not> path_exists w (fname @ sfx)"
  then have "sfx = ''.unzip'' \<or> sfx = ''.untar''"
    using sfx by (auto simp: Unzip_def Untar_def)
  then have s: "CHR ''/'' \<notin> set sfx" "sfx \<noteq> []"
    by auto
  show "makedirs (fname @ sfx) w = (Inr (), put (fname @ sfx) Dir w)"
    using a s by (intro makedirs_fresh) (simp_all add: folder_exists_append snd_path_split_suffix)
qed

theorem extractor_refresh_policy_witness:
  "ExtractorProcessor_call (Unzip None) ''data.zip'' ''fetch''
      (store [(''data.zip'', File (ZipArchive [(''x.csv'', Regular (Raw ''1,2''))])),
              (''data.zip.unzip'', Dir),
              (''data.zip.unzip/x.csv'', File (Raw ''1,2''))]) =
     (Inr [''data.zip.unzip/x.csv''],
      store [(''data.zip'', File (ZipArchive [(''x.csv'', Regular (Raw ''1,2''))])),
              (''data.zip.unzip'', Dir),
              (''data.zip.unzip/x.csv'', File (Raw ''1,2''))]) \<and>
   ExtractorProcessor_call (Unzip (Some [''x.csv''])) ''data.zip'' ''update''
      (store [(''data.zip'', File (ZipArchive [(''x.csv'', Regular (Raw ''3,4''))])),
              (''data.zip.unzip'', Dir),
              (''data.zip.unzip/x.csv'', File (Raw ''1,2''))]) =
     (Inr [''data.zip.unzip/x.csv''],
      \<lparr>fs = [(''data.zip'', File (ZipArchive [(''x.csv'', Regular (Raw ''3,4''))])),
              (''data.zip.unzip'', Dir),
              (''data.zip.unzip/x.csv'', File (Raw ''3,4''))],
       warnings = [extracting_message ''x.csv'' ''data.zip'' ''data.zip.unzip''],
       handles = [],
       unpack_log = [(''data.zip'', ''data.zip.unzip'')]\<rparr>) \<and>
   ExtractorProcessor_call (Untar (Some [''x.csv''])) ''data.tar'' ''fetch''
      (store [(''data.tar'', File (TarArchive [(''x.csv'', Regular (Raw ''1,2''))]))]) =
     (Inr [''data.tar.untar/x.csv''],
      \<lparr>fs = [(''data.tar'', File (TarArchive [(''x.csv'', Regular (Raw ''1,2''))])),
              (''data.tar.untar'', Dir),
              (''data.tar.untar/x.csv'', File (Raw ''1,2''))],
       warnings = [extracting_message ''x.csv'' ''data.tar'' ''data.tar.untar''],
       handles = [],
       unpack_log = [(''data.tar'', ''data.tar.untar'')]\<rparr>)"
proof -
  let ?wa = "store [(''data.zip'', File (ZipArchive [(''x.csv'', Regular (Raw ''1,2''))])),
              (''data.zip.unzip'', Dir),
              (''data.zip.unzip/x.csv'', File (Raw ''1,2''))]"
  let ?wb = "store [(''data.zip'', File (ZipArchive [(''x.csv'', Regular (Raw ''3,4''))])),
              (''data.zip.unzip'', Dir),
              (''data.zip.unzip/x.csv'', File (Raw ''1,2''))]"
  let ?wc = "store [(''data.tar'', File (TarArchive [(''x.csv'', Regular (Raw ''1,2''))]))]"
  have sz: "suffix (Unzip ms) = Some ''.unzip''" and st: "suffix (Untar ms) = Some ''.untar''" for ms
    by (simp_all add: Unzip_def Untar_def)
  note ta = extractor_refresh_policy [OF sz [of None], where action = "''fetch''" and w = ?wa
      and fname = "''data.zip''" and ms = None]
  note tb = extractor_refresh_policy [OF sz [of "Some [''x.csv'']"], where action = "''update''"
      and w = ?wb and fname = "''data.zip''" and ms = "Some [''x.csv'']"]
  note tc = extractor_refresh_policy [OF st [of "Some [''x.csv'']"], where action = "''fetch''"
      and w = ?wc and fname = "''data.tar''" and ms = "Some [''x.csv'']"]
  have a: "ExtractorProcessor_call (Unzip None) ''data.zip'' ''fetch'' ?wa =
      (Inr (walk_files ?wa (''data.zip'' @ ''.unzip'')), ?wa)"
    using ta [THEN conjunct1] by (simp add: eval_defs)
  have b: "ExtractorProcessor_call (Unzip (Some [''x.csv''])) ''data.zip'' ''update'' ?wb =
      (case extract_file (Unzip (Some [''x.csv''])) (members (Unzip (Some [''x.csv''])))
              ''data.zip'' (''data.zip'' @ ''.unzip'')
              (?wb\<lparr>unpack_log := unpack_log ?wb @ [(''data.zip'', ''data.zip'' @ ''.unzip'')]\<rparr>) of
         (Inl e, w2) \<Rightarrow> (Inl e, w2)
       | (Inr u, w2) \<Rightarrow> (Inr (walk_files w2 (''data.zip'' @ ''.unzip'')), w2))"
    using tb [THEN conjunct2, THEN conjunct1] by (simp add: eval_defs)
  have mk: "makedirs (''data.tar'' @ ''.untar'') ?wc =
      (Inr (), put (''data.tar'' @ ''.untar'') Dir ?wc)"
    using tc [THEN conjunct2, THEN conjunct2, THEN conjunct2] by (simp add: eval_defs)
  have c: "ExtractorProcessor_call (Untar (Some [''x.csv''])) ''data.tar'' ''fetch'' ?wc =
      (case extract_file (Untar (Some [''x.csv''])) (members (Untar (Some [''x.csv''])))
              ''data.tar'' (''data.tar'' @ ''.untar'')
              ((put (''data.tar'' @ ''.untar'') Dir ?wc)
                 \<lparr>unpack_log := unpack_log (put (''data.tar'' @ ''.untar'') Dir ?wc) @
                    [(''data.tar'', ''data.tar'' @ ''.untar'')]\<rparr>) of
         (Inl e, w2) \<Rightarrow> (Inl e, w2)
       | (Inr u, w2) \<Rightarrow> (Inr (walk_files w2 (''data.tar'' @ ''.untar'')), w2))"
    using tc [THEN conjunct2, THEN conjunct2, THEN conjunct1] mk by (simp add: eval_defs)
  have a': "ExtractorProcessor_call (Unzip None) ''data.zip'' ''fetch'' ?wa =
      (Inr [''data.zip.unzip/x.csv''], ?wa)"
    by (simp add: a) (simp add: walk_defs eval_defs)
  have b': "ExtractorProcessor_call (Unzip (Some [''x.csv''])) ''data.zip'' ''update'' ?wb =
     (Inr [''data.zip.unzip/x.csv''],
      \<lparr>fs = [(''data.zip'', File (ZipArchive [(''x.csv'', Regular (Raw ''3,4''))])),
              (''data.zip.unzip'', Dir),
              (''data.zip.unzip/x.csv'', File (Raw ''3,4''))],
       warnings = [extracting_message ''x.csv'' ''data.zip'' ''data.zip.unzip''],
       handles = [],
       unpack_log = [(''data.zip'', ''data.zip.unzip'')]\<rparr>)"
    by (simp add: b) (simp add: run_defs walk_defs eval_defs)
  have c': "ExtractorProcessor_call (Untar (Some [''x.csv''])) ''data.tar'' ''fetch'' ?wc =
     (Inr [''data.tar.untar/x.csv''],
      \<lparr>fs = [(''data.tar'', File (TarArchive [(''x.csv'', Regular (Raw ''1,2''))])),
              (''data.tar.untar'', Dir),
              (''data.tar.untar/x.csv'', File (Raw ''1,2''))],
       warnings = [extracting_message ''x.csv'' ''data.tar'' ''data.tar.untar''],
       handles = [],
       unpack_log = [(''data.tar'', ''data.tar.untar'')]\<rparr>)"
    by (simp add: c) (simp add: run_defs walk_defs eval_defs)
  from a' b' c' show ?thesis
    by simp
qed

text \<open>
  C9. Take two extractors of the same class, with the member restrictions \<open>A\<close> and \<open>B\<close>. If
  a call of the first on a path returns, a following call of the second on that path with
  the action \<open>fetch\<close> unpacks nothing, leaves the world as the first call left it, and
  returns the list the first call returned: \<open>B\<close> plays no part.
\<close>

theorem member_set_not_in_cache_key:
  assumes cls: "(p1 = Unzip A \<and> p2 = Unzip B) \<or> (p1 = Untar A \<and> p2 = Untar B)"
    and first: "ExtractorProcessor_call p1 fname action w = (Inr files, w1)"
  shows "ExtractorProcessor_call p2 fname ''fetch'' w1 = (Inr files, w1)"
proof -
  have c1: "p1 = Unzip A \<or> p1 = Untar A"
    using cls by auto
  obtain sfx where sfx: "suffix p1 = Some sfx" "CHR ''/'' \<notin> set sfx" "sfx \<noteq> []"
      "\<forall>t. t @ sfx \<noteq> ''.''"
    and k: "keeps (extract_file p1 (members p1) fname (fname @ sfx))"
    using archive_suffix [OF c1, of fname "fname @ sfx"] archive_suffix [OF c1]
    by (metis option.inject)
  have s2: "suffix p2 = Some sfx"
    using cls sfx(1) by (auto simp: Unzip_def Untar_def)
  let ?dir = "fname @ sfx"
  have "files = walk_files w1 ?dir \<and> path_exists w1 ?dir"
  proof (cases "refresh w action ?dir")
    case False
    then have "ExtractorProcessor_call p1 fname action w = (Inr (walk_files w ?dir), w)"
      using sfx(1) by (rule ExtractorProcessor_call_skip [rotated])
    with first False show ?thesis
      by (auto simp: refresh_def)
  next
    case True
    obtain rm wm where mk:
      "(if \<not> path_exists w ?dir then makedirs ?dir w else (Inr (), w)) = (rm, wm)"
      by (cases "if \<not> path_exists w ?dir then makedirs ?dir w else (Inr (), w)")
    have rm: "rm = Inr ()"
      using first sfx(1) True mk
      by (cases rm) (simp_all add: ExtractorProcessor_call_def Let_def)
    have "snd (makedirs_parts ?dir) \<noteq> ''.''"
      using sfx(2,3,4) by (simp add: makedirs_parts_def snd_path_split_suffix)
    then have ex: "path_exists wm ?dir"
      using mk rm makedirs_creates [of ?dir w "()" wm] by (auto split: if_splits)
    let ?wm = "wm\<lparr>unpack_log := unpack_log wm @ [(fname, ?dir)]\<rparr>"
    obtain r2 w2 where e: "extract_file p1 (members p1) fname ?dir ?wm = (r2, w2)"
      by (cases "extract_file p1 (members p1) fname ?dir ?wm")
    then have "steady ?wm w2"
      using k by (rule keepsD [rotated])
    moreover have "path_exists ?wm ?dir"
      using ex by (simp add: world_fields)
    ultimately have ex2: "path_exists w2 ?dir"
      by (rule steady_path_exists)
    have "ExtractorProcessor_call p1 fname action w =
       (case r2 of Inl e \<Rightarrow> (Inl e, w2) | Inr u \<Rightarrow> (Inr (walk_files w2 ?dir), w2))"
      using ExtractorProcessor_call_run [OF sfx(1) True mk [unfolded rm]] e
      by (cases r2) simp_all
    with first ex2 show ?thesis
      by (cases r2) auto
  qed
  then have "\<not> refresh w1 ''fetch'' ?dir" and "files = walk_files w1 ?dir"
    by (simp_all add: refresh_def)
  then show ?thesis
    using ExtractorProcessor_call_skip [OF s2, of w1 "''fetch''" fname] by simp
qed

text \<open>
  A first call that extracts \<open>a.txt\<close> alone from an archive of two files, and the world it
  leaves; the call after it asks for \<open>b.txt\<close> and gets \<open>a.txt\<close>.
\<close>

lemma first_call_with_one_member:
  "ExtractorProcessor_call (Unzip (Some [''a.txt''])) ''data.zip'' ''download''
      (store [(''data.zip'', File (ZipArchive
                 [(''a.txt'', Regular (Raw ''A'')), (''b.txt'', Regular (Raw ''B''))]))]) =
   (Inr [''data.zip.unzip/a.txt''],
    \<lparr>fs = [(''data.zip'', File (ZipArchive
                 [(''a.txt'', Regular (Raw ''A'')), (''b.txt'', Regular (Raw ''B''))])),
            (''data.zip.unzip'', Dir),
            (''data.zip.unzip/a.txt'', File (Raw ''A''))],
     warnings = [extracting_message ''a.txt'' ''data.zip'' ''data.zip.unzip''],
     handles = [],
     unpack_log = [(''data.zip'', ''data.zip.unzip'')]\<rparr>)"
  by (simp add: run_defs makedirs_fresh walk_defs eval_defs)

theorem member_set_not_in_cache_key_witness:
  "ExtractorProcessor_call (Unzip (Some [''b.txt''])) ''data.zip'' ''fetch''
     \<lparr>fs = [(''data.zip'', File (ZipArchive
                 [(''a.txt'', Regular (Raw ''A'')), (''b.txt'', Regular (Raw ''B''))])),
            (''data.zip.unzip'', Dir),
            (''data.zip.unzip/a.txt'', File (Raw ''A''))],
     warnings = [extracting_message ''a.txt'' ''data.zip'' ''data.zip.unzip''],
     handles = [],
     unpack_log = [(''data.zip'', ''data.zip.unzip'')]\<rparr> =
   (Inr [''data.zip.unzip/a.txt''],
    \<lparr>fs = [(''data.zip'', File (ZipArchive
                 [(''a.txt'', Regular (Raw ''A'')), (''b.txt'', Regular (Raw ''B''))])),
            (''data.zip.unzip'', Dir),
            (''data.zip.unzip/a.txt'', File (Raw ''A''))],
     warnings = [extracting_message ''a.txt'' ''data.zip'' ''data.zip.unzip''],
     handles = [],
     unpack_log = [(''data.zip'', ''data.zip.unzip'')]\<rparr>)"
  by (rule member_set_not_in_cache_key
      [OF _ first_call_with_one_member, where ?p2.0 = "Unzip (Some [''b.txt''])" and A = "Some [''a.txt'']"
        and B = "Some [''b.txt'']"])
    simp

subsection \<open>Named members\<close>

text \<open>
  A member named by a plain file name is written to the output directory under that name,
  by \<open>Unzip\<close> and \<open>Untar\<close> alike; a name the archive does not have is a \<open>KeyError\<close>.
\<close>

lemma path_join_plain:
  "dir \<noteq> [] \<Longrightarrow> last dir \<noteq> CHR ''/'' \<Longrightarrow> plain m \<Longrightarrow> path_join dir m = dir @ ''/'' @ m"
  by (cases m) (auto simp: path_join_def plain_def)

lemma rfind_last: "rfind c (p @ [c]) = int (length p)"
  by (simp add: rfind_def)

lemma rstrip_sep_snoc:
  assumes "dir \<noteq> []" and "last dir \<noteq> CHR ''/''"
  shows "rstrip_sep (dir @ ''/'') = dir"
proof -
  obtain xs x where d: "dir = xs @ [x]"
    using assms(1) by (metis append_butlast_last_id)
  with assms(2) show ?thesis
    by (simp add: rstrip_sep_def)
qed

lemma dirname_join_plain:
  assumes "dir \<noteq> []" and "last dir \<noteq> CHR ''/''" and "plain m"
  shows "dirname (dir @ ''/'' @ m) = dir"
proof -
  let ?p = "dir @ ''/''"
  have i: "nat (rfind CHR ''/'' ?p + 1) = length ?p"
    using rfind_last [of "CHR ''/''" dir] by simp
  have "last dir \<in> set ?p"
    using assms(1) by simp
  then have ex: "list_ex (\<lambda>x. x \<noteq> CHR ''/'') ?p"
    unfolding list_ex_iff using assms(2) by blast
  have t: "take (length ?p) ?p = ?p"
    by (rule take_all) simp
  have "fst (path_split ?p) = rstrip_sep ?p"
    unfolding path_split_def Let_def i t using ex by simp
  then have "fst (path_split ?p) = dir"
    by (rule trans) (rule rstrip_sep_snoc [OF assms(1,2)])
  moreover have "CHR ''/'' \<notin> set m"
    using assms(3) by (simp add: plain_def)
  then have "path_split (?p @ m) = (fst (path_split ?p), snd (path_split ?p) @ m)"
    by (rule path_split_append)
  ultimately show ?thesis
    by (simp only: dirname_def fst_conv append_assoc)
qed

lemma open_write_member:
  assumes "dir \<noteq> []" and "last dir \<noteq> CHR ''/''" and "plain m"
    and "isdir w dir" and "\<not> isdir w (dir @ ''/'' @ m)"
  shows "open_write (path_join dir m) w =
     (Inr (FileHandle (dir @ ''/'' @ m), dir @ ''/'' @ m), put (dir @ ''/'' @ m) (File (Raw [])) w)"
proof -
  have j: "path_join dir m = dir @ ''/'' @ m"
    using assms(1-3) by (rule path_join_plain)
  have "dirname (dir @ ''/'' @ m) = dir"
    using assms(1-3) by (rule dirname_join_plain)
  then have f: "folder_exists w (dir @ ''/'' @ m)"
    using assms(4) unfolding folder_exists_def by (simp only: simp_thms)
  have n: "dir @ ''/'' @ m \<noteq> []"
    using assms(1) by simp
  show ?thesis
    unfolding j by (rule open_write_ok [OF f assms(5) n])
qed

lemma Unzip_member_written:
  assumes "getmember es m = Some (Regular c)"
    and "dir \<noteq> []" and "last dir \<noteq> CHR ''/''" and "plain m"
    and "isdir w dir" and "\<not> isdir w (dir @ ''/'' @ m)"
  shows "Unzip_member fname es dir m w = (Inr (), member_written fname dir m c w)"
proof -
  let ?w1 = "w\<lparr>warnings := warnings w @ [extracting_message m fname dir],
               handles := MemberStream fname m # handles w\<rparr>"
  have "open_write (path_join dir m) ?w1 =
     (Inr (FileHandle (dir @ ''/'' @ m), dir @ ''/'' @ m), put (dir @ ''/'' @ m) (File (Raw [])) ?w1)"
    using assms(2-6) by (intro open_write_member) (simp_all add: world_fields)
  then show ?thesis
    using assms(1)
    by (simp add: Unzip_member_def bind_def warn_def with_resource_def zip_open_def
        file_write_def member_written_def put_fields put_update put_put)
qed

lemma Untar_member_written:
  assumes "getmember es m = Some (Regular c)"
    and "dir \<noteq> []" and "last dir \<noteq> CHR ''/''" and "plain m"
    and "isdir w dir" and "\<not> isdir w (dir @ ''/'' @ m)"
  shows "Untar_member fname es dir m w = (Inr (), member_written fname dir m c w)"
proof -
  let ?w1 = "w\<lparr>warnings := warnings w @ [extracting_message m fname dir],
               handles := MemberStream fname m # handles w\<rparr>"
  have "open_write (path_join dir m) ?w1 =
     (Inr (FileHandle (dir @ ''/'' @ m), dir @ ''/'' @ m), put (dir @ ''/'' @ m) (File (Raw [])) ?w1)"
    using assms(2-6) by (intro open_write_member) (simp_all add: world_fields)
  then show ?thesis
    using assms(1)
    by (simp add: Untar_member_def bind_def warn_def with_resource_def extractfile_def
        try_finally_def stream_read_def stream_close_def
        file_write_def member_written_def put_fields put_update put_put)
qed

lemma Unzip_member_absent:
  "getmember es m = None \<Longrightarrow>
   Unzip_member fname es dir m w =
     (Inl (KeyError m), w\<lparr>warnings := warnings w @ [extracting_message m fname dir]\<rparr>)"
  by (simp add: Unzip_member_def bind_def warn_def with_resource_def zip_open_def)

lemma Untar_member_absent:
  "getmember es m = None \<Longrightarrow>
   Untar_member fname es dir m w =
     (Inl (KeyError m), w\<lparr>warnings := warnings w @ [extracting_message m fname dir]\<rparr>)"
  by (simp add: Untar_member_def bind_def warn_def extractfile_def)

lemma isdir_member_written:
  "dir \<noteq> [] \<Longrightarrow>
   isdir (member_written fname dir m c w) q = (q \<noteq> dir @ ''/'' @ m \<and> isdir w q)"
  by (cases dir) (auto simp: member_written_def isdir_def lookup_put lookup_fields)

lemma lookup_member_written:
  "lookup (member_written fname dir m c w) q =
     (if q = dir @ ''/'' @ m then Some (File c) else lookup w q)"
  by (simp add: member_written_def lookup_put lookup_fields)

text \<open>
  The loop over the members, for either class: all the names before the first one the
  archive does not have are written, and the loop ends there with the \<open>KeyError\<close>.
\<close>

lemma members_loop:
  assumes step: "step = Unzip_member fname es dir \<or> step = Untar_member fname es dir"
    and dir: "dir \<noteq> []" "last dir \<noteq> CHR ''/''"
    and names: "\<forall>m\<in>set names. plain m \<and> (\<exists>c. getmember es m = Some (Regular c))"
    and w: "isdir w dir" "\<forall>m\<in>set names. \<not> isdir w (dir @ ''/'' @ m)"
  shows "\<exists>w'. for_each step names w = (Inr (), w') \<and> isdir w' dir \<and>
           (\<forall>m\<in>set names. lookup w' (dir @ ''/'' @ m) = Some (File (held es m))) \<and>
           (\<forall>q. (\<forall>m\<in>set names. q \<noteq> dir @ ''/'' @ m) \<longrightarrow> lookup w' q = lookup w q)"
  using names w
proof (induction names arbitrary: w)
  case Nil
  then show ?case
    by simp
next
  case (Cons m ms)
  obtain c where c: "getmember es m = Some (Regular c)"
    using Cons.prems(1) by auto
  have pm: "plain m"
    using Cons.prems(1) by simp
  let ?w1 = "member_written fname dir m c w"
  have nd: "\<not> isdir w (dir @ ''/'' @ m)"
    using Cons.prems(3) by simp
  have s: "step m w = (Inr (), ?w1)"
  proof (rule disjE [OF step])
    assume "step = Unzip_member fname es dir"
    then show ?thesis
      using Unzip_member_written [OF c dir pm Cons.prems(2) nd] by simp
  next
    assume "step = Untar_member fname es dir"
    then show ?thesis
      using Untar_member_written [OF c dir pm Cons.prems(2) nd] by simp
  qed
  have d1: "isdir ?w1 dir"
    using Cons.prems(2) dir(1) by (simp add: isdir_member_written)
  have n1: "\<forall>m'\<in>set ms. \<not> isdir ?w1 (dir @ ''/'' @ m')"
    using Cons.prems(3) dir(1) by (simp add: isdir_member_written)
  have p1: "\<forall>m\<in>set ms. plain m \<and> (\<exists>c. getmember es m = Some (Regular c))"
    using Cons.prems(1) by simp
  obtain w' where run: "for_each step ms ?w1 = (Inr (), w')" and d': "isdir w' dir"
    and A: "\<forall>m'\<in>set ms. lookup w' (dir @ ''/'' @ m') = Some (File (held es m'))"
    and B: "\<forall>q. (\<forall>m'\<in>set ms. q \<noteq> dir @ ''/'' @ m') \<longrightarrow> lookup w' q = lookup ?w1 q"
    using Cons.IH [OF p1 d1 n1] by blast
  have h: "held es m = c"
    using c by (simp add: held_def)
  have A': "lookup w' (dir @ ''/'' @ m') = Some (File (held es m'))" if "m' \<in> set (m # ms)" for m'
  proof (cases "m' \<in> set ms")
    case True
    with A show ?thesis
      by simp
  next
    case False
    with that have eq: "m' = m"
      by simp
    have "\<forall>m''\<in>set ms. dir @ ''/'' @ m \<noteq> dir @ ''/'' @ m''"
      using False eq by auto
    then have "lookup w' (dir @ ''/'' @ m) = lookup ?w1 (dir @ ''/'' @ m)"
      using B by simp
    then show ?thesis
      by (simp add: eq h lookup_member_written)
  qed
  have B': "lookup w' q = lookup w q" if "\<forall>m'\<in>set (m # ms). q \<noteq> dir @ ''/'' @ m'" for q
  proof -
    have "lookup w' q = lookup ?w1 q"
      using B that by simp
    also have "\<dots> = lookup w q"
      using that by (simp add: lookup_member_written)
    finally show ?thesis .
  qed
  have r': "for_each step (m # ms) w = (Inr (), w')"
    by (simp add: s run)
  show ?case
  proof (intro exI [of _ w'] conjI ballI allI impI)
    show "for_each step (m # ms) w = (Inr (), w')"
      by (rule r')
    show "isdir w' dir"
      by (rule d')
  next
    fix m'
    assume "m' \<in> set (m # ms)"
    then show "lookup w' (dir @ ''/'' @ m') = Some (File (held es m'))"
      by (rule A')
  next
    fix q
    assume "\<forall>m'\<in>set (m # ms). q \<noteq> dir @ ''/'' @ m'"
    then show "lookup w' q = lookup w q"
      by (rule B')
  qed
qed

lemma for_each_append:
  "for_each f (xs @ ys) v =
     (case for_each f xs v of (Inl e, v') \<Rightarrow> (Inl e, v') | (Inr u, v') \<Rightarrow> for_each f ys v')"
  by (induction xs arbitrary: v) (simp_all split: prod.splits sum.splits)

lemma members_loop_absent:
  assumes step: "step = Unzip_member fname es dir \<or> step = Untar_member fname es dir"
    and dir: "dir \<noteq> []" "last dir \<noteq> CHR ''/''"
    and names: "\<forall>m\<in>set names. plain m \<and> (\<exists>c. getmember es m = Some (Regular c))"
    and w: "isdir w dir" "\<forall>m\<in>set names. \<not> isdir w (dir @ ''/'' @ m)"
    and absent: "getmember es missing = None"
  shows "\<exists>w'. for_each step (names @ missing # rest) w = (Inl (KeyError missing), w') \<and>
           (\<forall>m\<in>set names. lookup w' (dir @ ''/'' @ m) = Some (File (held es m))) \<and>
           (\<forall>q. (\<forall>m\<in>set names. q \<noteq> dir @ ''/'' @ m) \<longrightarrow> lookup w' q = lookup w q)"
proof -
  obtain w1 where run: "for_each step names w = (Inr (), w1)"
    and A: "\<forall>m\<in>set names. lookup w1 (dir @ ''/'' @ m) = Some (File (held es m))"
    and B: "\<forall>q. (\<forall>m\<in>set names. q \<noteq> dir @ ''/'' @ m) \<longrightarrow> lookup w1 q = lookup w q"
    using members_loop [OF step dir names w] by blast
  let ?w2 = "w1\<lparr>warnings := warnings w1 @ [extracting_message missing fname dir]\<rparr>"
  have "step missing w1 = (Inl (KeyError missing), ?w2)"
  proof (rule disjE [OF step])
    assume "step = Unzip_member fname es dir"
    then show ?thesis
      using Unzip_member_absent [OF absent] by simp
  next
    assume "step = Untar_member fname es dir"
    then show ?thesis
      using Untar_member_absent [OF absent] by simp
  qed
  then have "for_each step (names @ missing # rest) w = (Inl (KeyError missing), ?w2)"
    by (simp add: for_each_append run)
  moreover have "lookup ?w2 = lookup w1"
    by (simp add: lookup_fields)
  ultimately show ?thesis
    using A B by (intro exI [of _ ?w2]) (simp only: simp_thms)
qed

text \<open>
  The same for the whole of \<open>_extract_file\<close> with a member restriction: each named member
  is in the output directory under its name with the content the archive holds for it, and no
  other path has changed.
\<close>

lemma named_members_extracted:
  assumes arch: "(extract = Unzip_extract_file \<and> lookup w fname = Some (File (ZipArchive es))) \<or>
                 (extract = Untar_extract_file \<and> lookup w fname = Some (File (TarArchive es)))"
    and dir: "dir \<noteq> []" "last dir \<noteq> CHR ''/''"
    and names: "\<forall>m\<in>set names. plain m \<and> (\<exists>c. getmember es m = Some (Regular c))"
    and w: "isdir w dir" "\<forall>m\<in>set names. \<not> isdir w (dir @ ''/'' @ m)"
  shows "\<exists>w'. extract (Some names) fname dir w = (Inr (), w') \<and>
           (\<forall>m\<in>set names. lookup w' (dir @ ''/'' @ m) = Some (File (held es m))) \<and>
           (\<forall>q. (\<forall>m\<in>set names. q \<noteq> dir @ ''/'' @ m) \<longrightarrow> lookup w' q = lookup w q)"
proof -
  let ?w0 = "w\<lparr>handles := ArchiveHandle fname # handles w\<rparr>"
  define step where
    "step = (if extract = Unzip_extract_file then Unzip_member fname es dir
             else Untar_member fname es dir)"
  have st: "step = Unzip_member fname es dir \<or> step = Untar_member fname es dir"
    by (simp add: step_def)
  have w0: "isdir ?w0 dir" "\<forall>m\<in>set names. \<not> isdir ?w0 (dir @ ''/'' @ m)"
    using w by (simp_all add: world_fields)
  obtain w1 where run: "for_each step names ?w0 = (Inr (), w1)"
    and A: "\<forall>m\<in>set names. lookup w1 (dir @ ''/'' @ m) = Some (File (held es m))"
    and B: "\<forall>q. (\<forall>m\<in>set names. q \<noteq> dir @ ''/'' @ m) \<longrightarrow> lookup w1 q = lookup ?w0 q"
    using members_loop [OF st dir names w0] by blast
  let ?w' = "w1\<lparr>handles := remove1 (ArchiveHandle fname) (handles w1)\<rparr>"
  have "extract (Some names) fname dir w = (Inr (), ?w')"
  proof (rule disjE [OF arch])
    assume a: "extract = Unzip_extract_file \<and> lookup w fname = Some (File (ZipArchive es))"
    then have "step = Unzip_member fname es dir"
      by (simp add: step_def)
    with a run show ?thesis
      by (simp add: Unzip_extract_file_def with_resource_def ZipFile_def)
  next
    assume a: "extract = Untar_extract_file \<and> lookup w fname = Some (File (TarArchive es))"
    have "Untar_extract_file \<noteq> Unzip_extract_file"
    proof
      assume "Untar_extract_file = Unzip_extract_file"
      then have "Untar_extract_file None ''a'' ''b'' (store [(''a'', File (TarArchive []))]) =
                 Unzip_extract_file None ''a'' ''b'' (store [(''a'', File (TarArchive []))])"
        by simp
      then show False
        by (simp add: Untar_extract_file_def Unzip_extract_file_def with_resource_def
            TarFile_open_def ZipFile_def bind_def warn_def tar_extractall_def store_def lookup_def)
    qed
    with a have "step = Untar_member fname es dir"
      by (simp add: step_def)
    with a run show ?thesis
      by (simp add: Untar_extract_file_def with_resource_def TarFile_open_def)
  qed
  moreover have "lookup ?w' = lookup w1" "lookup ?w0 = lookup w"
    by (simp_all add: lookup_fields)
  ultimately show ?thesis
    using A B by (intro exI [of _ ?w']) (simp only: simp_thms)
qed

text \<open>
  C5. The claim is that each named member is written to the output directory under its name.
  For a member inside a folder of the archive the code opens \<open>extract_dir/sub/a.txt\<close> for
  writing without making \<open>extract_dir/sub\<close>, so the call fails with \<open>FileNotFoundError\<close> and
  writes nothing, for \<open>Unzip\<close> and for \<open>Untar\<close> alike, although the member is in the archive;
  the unrestricted extraction of the same archive does produce the file.
\<close>

theorem nested_member_not_extracted:
  "ExtractorProcessor_call (Unzip (Some [''sub/a.txt''])) ''data.zip'' ''download''
      (store [(''data.zip'', File (ZipArchive [(''sub/a.txt'', Regular (Raw ''A''))]))]) =
   (Inl (FileNotFoundError ''data.zip.unzip/sub/a.txt''),
    \<lparr>fs = [(''data.zip'', File (ZipArchive [(''sub/a.txt'', Regular (Raw ''A''))])),
            (''data.zip.unzip'', Dir)],
     warnings = [extracting_message ''sub/a.txt'' ''data.zip'' ''data.zip.unzip''],
     handles = [],
     unpack_log = [(''data.zip'', ''data.zip.unzip'')]\<rparr>) \<and>
   ExtractorProcessor_call (Untar (Some [''sub/a.txt''])) ''data.tar'' ''download''
      (store [(''data.tar'', File (TarArchive [(''sub/a.txt'', Regular (Raw ''A''))]))]) =
   (Inl (FileNotFoundError ''data.tar.untar/sub/a.txt''),
    \<lparr>fs = [(''data.tar'', File (TarArchive [(''sub/a.txt'', Regular (Raw ''A''))])),
            (''data.tar.untar'', Dir)],
     warnings = [extracting_message ''sub/a.txt'' ''data.tar'' ''data.tar.untar''],
     handles = [],
     unpack_log = [(''data.tar'', ''data.tar.untar'')]\<rparr>) \<and>
   fst (ExtractorProcessor_call (Unzip None) ''data.zip'' ''download''
      (store [(''data.zip'', File (ZipArchive [(''sub/a.txt'', Regular (Raw ''A''))]))])) =
   Inr [''data.zip.unzip/sub/a.txt'']"
  by (simp add: run_defs makedirs_fresh walk_defs eval_defs zip_arcname_def)

end
